theory Spec2Isabelle
  imports Main "HOL-Library.Word" "HOL-Library.Multiset"
begin

section \<open>JavaScript strings and objects\<close>

text \<open>
  A JavaScript string is a sequence of UTF-16 code units. Literals of the source are
  ASCII, one code unit per character.
\<close>

type_synonym jsstring = "16 word list"

definition lit :: "string \<Rightarrow> jsstring" where
  "lit s = map (\<lambda>c. of_nat (of_char c)) s"

text \<open>
  An object with string keys is kept as the list of its properties in creation order
  (keys distinct). Enumeration (\<^verbatim>\<open>Object.entries\<close>, \<^verbatim>\<open>Object.values\<close>,
  \<^verbatim>\<open>JSON.stringify\<close>, spread) follows the language's own-property order: the keys
  that are array indices (canonical decimal numerals below \<open>2^32 - 1\<close>) first, in
  ascending numeric order, then the other keys in creation order.
\<close>

type_synonym 'v jsobject = "(jsstring \<times> 'v) list"

definition isDigit :: "16 word \<Rightarrow> bool" where
  "isDigit c = (0x30 \<le> c \<and> c \<le> 0x39)"

definition decimalValue :: "jsstring \<Rightarrow> nat" where
  "decimalValue s = foldl (\<lambda>n c. 10 * n + (unat c - 48)) 0 s"

definition isArrayIndex :: "jsstring \<Rightarrow> bool" where
  "isArrayIndex s =
     (s \<noteq> [] \<and> list_all isDigit s \<and> (length s = 1 \<or> hd s \<noteq> 0x30)
      \<and> decimalValue s < 4294967295)"

definition ownEntries :: "'v jsobject \<Rightarrow> (jsstring \<times> 'v) list" where
  "ownEntries kvs =
     sort_key (\<lambda>kv. decimalValue (fst kv)) (filter (\<lambda>kv. isArrayIndex (fst kv)) kvs)
     @ filter (\<lambda>kv. \<not> isArrayIndex (fst kv)) kvs"

definition objGet :: "'v jsobject \<Rightarrow> jsstring \<Rightarrow> 'v option" where
  "objGet kvs k = map_of kvs k"

text \<open>
  Defining the own property \<open>key\<close> (a computed key \<^verbatim>\<open>[key]: v\<close> of an object
  literal, an entry of \<^verbatim>\<open>Object.fromEntries\<close>): an existing property keeps its place,
  a new one is created last.
\<close>

fun objSet :: "'v jsobject \<Rightarrow> jsstring \<Rightarrow> 'v \<Rightarrow> 'v jsobject" where
  "objSet [] k v = [(k, v)]"
| "objSet ((k', v') # kvs) k v =
     (if k' = k then (k, v) # kvs else (k', v') # objSet kvs k v)"

text \<open>
  The assignment \<^verbatim>\<open>obj[key] = v\<close> on an object that was created by the literal
  \<^verbatim>\<open>{}\<close>. Every key creates or overwrites an own property, except \<^verbatim>\<open>__proto__\<close>:
  this key runs the setter inherited from \<^verbatim>\<open>Object.prototype\<close>, which changes the
  prototype or does nothing, and creates no own property. (The other properties of
  \<^verbatim>\<open>Object.prototype\<close>, and those of an object or array that the setter installs as
  prototype, are writable data properties, which an assignment shadows.)
\<close>

definition objAssign :: "'v jsobject \<Rightarrow> jsstring \<Rightarrow> 'v \<Rightarrow> 'v jsobject" where
  "objAssign obj k v = (if k = lit ''__proto__'' then obj else objSet obj k v)"

text \<open>\<^verbatim>\<open>Object.fromEntries\<close>: the entries are defined one after the other on a new object.\<close>

definition fromEntries :: "(jsstring \<times> 'v) list \<Rightarrow> 'v jsobject" where
  "fromEntries es = foldl (\<lambda>acc kv. objSet acc (fst kv) (snd kv)) [] es"

text \<open>
  \<^verbatim>\<open>Array.prototype.sort(compare)\<close>: a stable sort; an element goes before another
  one exactly when the comparison is negative, and elements that compare as 0 keep their
  order. It is written as an insertion sort, whose result is the one every stable sort
  returns when the comparison is a consistent order.
\<close>

fun insertBy :: "('a \<Rightarrow> 'a \<Rightarrow> int) \<Rightarrow> 'a \<Rightarrow> 'a list \<Rightarrow> 'a list" where
  "insertBy cmp x [] = [x]"
| "insertBy cmp x (y # ys) =
     (if cmp x y \<le> 0 then x # y # ys else y # insertBy cmp x ys)"

definition arraySort :: "('a \<Rightarrow> 'a \<Rightarrow> int) \<Rightarrow> 'a list \<Rightarrow> 'a list" where
  "arraySort cmp xs = foldr (insertBy cmp) xs []"

fun joinWith :: "jsstring \<Rightarrow> jsstring list \<Rightarrow> jsstring" where
  "joinWith sep [] = []"
| "joinWith sep [x] = x"
| "joinWith sep (x # y # ys) = x @ sep @ joinWith sep (y # ys)"

section \<open>Canonical JSON (session.ts)\<close>

datatype 'n json =
    JNull
  | JBool bool
  | JNum 'n
  | JStr jsstring
  | JArr "'n json list"
  | JObj "(jsstring \<times> 'n json) list"

text \<open>
  The functions of the host that the code calls and that are not part of the repository:
  \<^verbatim>\<open>String.prototype.localeCompare\<close>, the string and number tokens of
  \<^verbatim>\<open>JSON.stringify\<close>, SHA-256 and HMAC-SHA-256 in hex, the case mappings,
  \<^verbatim>\<open>new URL(url)\<close> (its pathname and search, or nothing where it throws),
  \<^verbatim>\<open>new Date(s).getTime()\<close> (nothing where it is NaN) and
  \<^verbatim>\<open>new Date(ms).toISOString()\<close>.
\<close>

record 'n host =
  localeCompare :: "jsstring \<Rightarrow> jsstring \<Rightarrow> int"
  quoteJSON :: "jsstring \<Rightarrow> jsstring"
  numberToString :: "'n \<Rightarrow> jsstring"
  sha256 :: "jsstring \<Rightarrow> jsstring"
  hmacSha256 :: "jsstring \<Rightarrow> jsstring \<Rightarrow> jsstring"
  toUpperCase :: "jsstring \<Rightarrow> jsstring"
  toLowerCase :: "jsstring \<Rightarrow> jsstring"
  newURL :: "jsstring \<Rightarrow> (jsstring \<times> jsstring) option"
  dateGetTime :: "jsstring \<Rightarrow> int option"
  toISOString :: "int \<Rightarrow> jsstring"

lemma set_insertBy [simp]: "set (insertBy cmp x ys) = insert x (set ys)"
  by (induction ys) auto

lemma set_arraySort [simp]: "set (arraySort cmp xs) = set xs"
  by (induction xs) (auto simp: arraySort_def)

lemma set_ownEntries [simp]: "set (ownEntries kvs) = set kvs"
  by (auto simp: ownEntries_def)

lemma size_json_entry:
  "(k, v) \<in> set kvs \<Longrightarrow> size v < Suc (size_list (size_prod (\<lambda>x. 0) size) kvs)"
  by (induction kvs) auto

lemma size_json_item:
  "item \<in> set items \<Longrightarrow> size item < Suc (size_list size items)"
  by (induction items) auto

function sortDeep :: "(jsstring \<Rightarrow> jsstring \<Rightarrow> int) \<Rightarrow> 'n json \<Rightarrow> 'n json" where
  "sortDeep cmp (JArr items) = JArr (map (\<lambda>item. sortDeep cmp item) items)"
| "sortDeep cmp (JObj kvs) =
     JObj (foldl (\<lambda>acc kv. objAssign acc (fst kv) (sortDeep cmp (snd kv))) []
             (arraySort (\<lambda>a b. cmp (fst a) (fst b)) (ownEntries kvs)))"
| "sortDeep cmp JNull = JNull"
| "sortDeep cmp (JBool b) = JBool b"
| "sortDeep cmp (JNum n) = JNum n"
| "sortDeep cmp (JStr s) = JStr s"
  by pat_completeness auto
termination
proof (relation "measure (\<lambda>(cmp, v). size v)", goal_cases)
  case 1
  show ?case by simp
next
  case (2 cmp items item)
  then show ?case by (simp add: size_json_item)
next
  case (3 cmp kvs acc kv)
  then have "(fst kv, snd kv) \<in> set kvs" by simp
  from size_json_entry [OF this] show ?case by simp
qed

text \<open>\<^verbatim>\<open>JSON.stringify(value)\<close> with no replacer and no indentation.\<close>

function stringify :: "'n host \<Rightarrow> 'n json \<Rightarrow> jsstring" where
  "stringify h JNull = lit ''null''"
| "stringify h (JBool b) = (if b then lit ''true'' else lit ''false'')"
| "stringify h (JNum n) = numberToString h n"
| "stringify h (JStr s) = quoteJSON h s"
| "stringify h (JArr items) =
     lit ''['' @ joinWith (lit '','') (map (\<lambda>item. stringify h item) items) @ lit '']''"
| "stringify h (JObj kvs) =
     lit ''{'' @ joinWith (lit '','')
        (map (\<lambda>kv. quoteJSON h (fst kv) @ lit '':'' @ stringify h (snd kv)) (ownEntries kvs))
     @ lit ''}''"
  by pat_completeness auto
termination
proof (relation "measure (\<lambda>(h, v). size v)", goal_cases)
  case 1
  show ?case by simp
next
  case (2 h items item)
  then show ?case by (simp add: size_json_item)
next
  case (3 h kvs kv)
  then have "(fst kv, snd kv) \<in> set kvs" by simp
  from size_json_entry [OF this] show ?case by simp
qed

definition canonicalJson :: "'n host \<Rightarrow> 'n json \<Rightarrow> jsstring" where
  "canonicalJson h v = stringify h (sortDeep (localeCompare h) v)"

section \<open>Payments and sessions (session.ts)\<close>

text \<open>
  A number of the language is an IEEE 754 double. The amounts, limits and totals of the
  ledger are integers, so a number is here a double with an integer value, an infinity or
  \<open>NaN\<close>; \<open>-0\<close> is not told from \<open>0\<close> (no operation of the ledger does). An integer
  field of a record stands for the double with that value.

  The doubles with an integer value are the integers below \<open>2^53\<close>, the even integers
  up to \<open>2^54\<close>, the multiples of 4 up to \<open>2^55\<close>, and so on: \<open>ulp n\<close> is their spacing
  at the magnitude \<open>n\<close>. The sum of two doubles is the double nearest to the exact sum,
  the one with the even significand when two are equally near, and an infinity when that
  double would be \<open>2^1024\<close> or more. \<open>NaN\<close> (also the sum of a number and
  \<^verbatim>\<open>undefined\<close>) absorbs sums and differences, and every comparison with it is false.
\<close>

datatype number = Num int | PosInf | NegInf | NaN

function ulp :: "nat \<Rightarrow> nat" where
  "ulp n = (if n < 2 ^ 53 then 1 else 2 * ulp (n div 2))"
  by pat_completeness auto
termination
  by (relation "measure (\<lambda>n. n)") auto

declare ulp.simps [simp del]

definition roundMagnitude :: "nat \<Rightarrow> nat" where
  "roundMagnitude n =
     (let q = ulp n; r = n mod q; lo = n - r
      in if 2 * r < q then lo
         else if q < 2 * r then lo + q
         else if even (lo div q) then lo else lo + q)"

definition toNumber :: "int \<Rightarrow> number" where
  "toNumber x =
     (let m = roundMagnitude (nat \<bar>x\<bar>)
      in if 2 ^ 1024 \<le> m then (if x < 0 then NegInf else PosInf)
         else Num (if x < 0 then - int m else int m))"

fun numNeg :: "number \<Rightarrow> number" where
  "numNeg (Num a) = Num (- a)"
| "numNeg PosInf = NegInf"
| "numNeg NegInf = PosInf"
| "numNeg NaN = NaN"

fun numAdd :: "number \<Rightarrow> number \<Rightarrow> number" where
  "numAdd (Num a) (Num b) = toNumber (a + b)"
| "numAdd NaN b = NaN"
| "numAdd a NaN = NaN"
| "numAdd PosInf NegInf = NaN"
| "numAdd NegInf PosInf = NaN"
| "numAdd PosInf b = PosInf"
| "numAdd a PosInf = PosInf"
| "numAdd NegInf b = NegInf"
| "numAdd a NegInf = NegInf"

definition numSub :: "number \<Rightarrow> number \<Rightarrow> number" where
  "numSub a b = numAdd a (numNeg b)"

fun numGreater :: "number \<Rightarrow> number \<Rightarrow> bool" where
  "numGreater (Num a) (Num b) = (a > b)"
| "numGreater PosInf (Num b) = True"
| "numGreater PosInf NegInf = True"
| "numGreater (Num a) NegInf = True"
| "numGreater a b = False"

definition ACE_PAYMENT_VERSION :: jsstring where
  "ACE_PAYMENT_VERSION = lit ''ace-x402-v1''"

definition X402_VERSION :: int where
  "X402_VERSION = 2"

record PaymentChallenge =
  c_version :: jsstring
  c_challengeId :: jsstring
  c_resource :: jsstring
  c_method :: jsstring
  c_amountMicrousdc :: int
  c_currency :: jsstring
  c_issuedAt :: jsstring
  c_expiresAt :: jsstring
  c_nonce :: jsstring
  c_mac :: "jsstring option"

record UnsignedPayment =
  p_version :: jsstring
  p_sessionId :: jsstring
  p_payer :: jsstring
  p_challengeId :: jsstring
  p_challenge :: PaymentChallenge
  p_idempotencyKey :: jsstring
  p_requestHash :: jsstring
  p_challengeHash :: jsstring
  p_amountMicrousdc :: int
  p_currency :: jsstring
  p_sessionExpiresAt :: jsstring
  p_issuedAt :: jsstring

record SignedPayment = UnsignedPayment +
  p_signature :: jsstring

record SessionState =
  sessionId :: jsstring
  payer :: jsstring
  spendLimitMicrousdc :: int
  createdAt :: jsstring
  expiresAt :: jsstring
  cumulativeSpendMicrousdc :: number
  pendingAttempts :: "SignedPayment jsobject"

record SignRequestContext =
  rq_method :: jsstring
  rq_url :: jsstring
  rq_body :: "jsstring option"

record SessionSnapshot =
  snap_sessionId :: jsstring
  snap_payer :: jsstring
  snap_spendLimitMicrousdc :: int
  snap_expiresAt :: jsstring
  snap_cumulativeSpendMicrousdc :: number
  snap_pendingSpendMicrousdc :: number
  snap_availableSpendMicrousdc :: number

text \<open>
  What the code throws. The ledger throws \<^verbatim>\<open>Error\<close> with a message; the
  constructors name the messages. \<open>Thrown\<close> is an error of the host or of a
  collaborator (the transport, the wallet, a parser).
\<close>

datatype error =
    SessionExpired
  | UnsupportedChallengeVersion
  | UnsupportedCurrency
  | ChallengeExpired
  | ChallengeMethodMismatch
  | ChallengeResourceMismatch
  | SpendLimitExceeded
  | TtlNotPositive
  | InvalidTimeValue
  | DifferentPayer
  | NoStoredSession
  | InvalidURL
  | InheritedProperty
  | UnsupportedPaymentVersion
  | UnsupportedPaymentCurrency
  | ChallengeIdMismatch
  | ChallengeHashMismatch
  | RequestHashMismatch
  | ChallengeMacFailed
  | InvalidIdempotencyKey
  | IncorrectPaymentAmount
  | PaymentSessionExpired
  | SignatureMismatch
  | Thrown jsstring

text \<open>
  A \<^verbatim>\<open>Date\<close> holds a time in milliseconds, an integer of magnitude at most
  \<open>8.64e15\<close>, or is invalid (nothing). \<^verbatim>\<open>new Date(t)\<close> is invalid when \<open>t\<close> is
  outside that range or not finite, and \<^verbatim>\<open>toISOString\<close> of an invalid date throws
  \<^verbatim>\<open>RangeError: Invalid time value\<close>. A reading of the clock is a valid date.
\<close>

type_synonym date = "int option"

definition newDate :: "number \<Rightarrow> date" where
  "newDate t =
     (case t of
        Num ms \<Rightarrow> if \<bar>ms\<bar> \<le> 8640000000000000 then Some ms else None
      | _ \<Rightarrow> None)"

definition getTime :: "date \<Rightarrow> number" where
  "getTime d = (case d of Some ms \<Rightarrow> Num ms | None \<Rightarrow> NaN)"

definition dateToISOString :: "'n host \<Rightarrow> date \<Rightarrow> error + jsstring" where
  "dateToISOString h d =
     (case d of None \<Rightarrow> Inl InvalidTimeValue | Some ms \<Rightarrow> Inr (toISOString h ms))"

text \<open>
  The objects that enter a hash, as JSON values. A property whose value is
  \<^verbatim>\<open>undefined\<close> is not serialised, so an absent \<open>mac\<close> is left out.
\<close>

definition challengeJson :: "PaymentChallenge \<Rightarrow> int json" where
  "challengeJson c = JObj (
     [(lit ''version'', JStr (c_version c)),
      (lit ''challengeId'', JStr (c_challengeId c)),
      (lit ''resource'', JStr (c_resource c)),
      (lit ''method'', JStr (c_method c)),
      (lit ''amountMicrousdc'', JNum (c_amountMicrousdc c)),
      (lit ''currency'', JStr (c_currency c)),
      (lit ''issuedAt'', JStr (c_issuedAt c)),
      (lit ''expiresAt'', JStr (c_expiresAt c)),
      (lit ''nonce'', JStr (c_nonce c))]
     @ (case c_mac c of None \<Rightarrow> [] | Some m \<Rightarrow> [(lit ''mac'', JStr m)]))"

definition unsignedPaymentJson :: "'a UnsignedPayment_scheme \<Rightarrow> int json" where
  "unsignedPaymentJson p = JObj
     [(lit ''version'', JStr (p_version p)),
      (lit ''sessionId'', JStr (p_sessionId p)),
      (lit ''payer'', JStr (p_payer p)),
      (lit ''challengeId'', JStr (p_challengeId p)),
      (lit ''challenge'', challengeJson (p_challenge p)),
      (lit ''idempotencyKey'', JStr (p_idempotencyKey p)),
      (lit ''requestHash'', JStr (p_requestHash p)),
      (lit ''challengeHash'', JStr (p_challengeHash p)),
      (lit ''amountMicrousdc'', JNum (p_amountMicrousdc p)),
      (lit ''currency'', JStr (p_currency p)),
      (lit ''sessionExpiresAt'', JStr (p_sessionExpiresAt p)),
      (lit ''issuedAt'', JStr (p_issuedAt p))]"

definition deriveResource :: "int host \<Rightarrow> jsstring \<Rightarrow> error + jsstring" where
  "deriveResource h url =
     (case newURL h url of
        None \<Rightarrow> Inl InvalidURL
      | Some (pathname, search) \<Rightarrow> Inr (pathname @ search))"

definition deriveRequestHash :: "int host \<Rightarrow> SignRequestContext \<Rightarrow> error + jsstring" where
  "deriveRequestHash h input =
     (let bodyHash = (case rq_body input of
                        None \<Rightarrow> []
                      | Some b \<Rightarrow> if b = [] then [] else sha256 h b);
          method = toUpperCase h (rq_method input)
      in case deriveResource h (rq_url input) of
           Inl e \<Rightarrow> Inl e
         | Inr resource \<Rightarrow>
             Inr (sha256 h (canonicalJson h (JObj
               [(lit ''bodyHash'', JStr bodyHash),
                (lit ''method'', JStr method),
                (lit ''resource'', JStr resource)]))))"

definition deriveChallengeHash :: "int host \<Rightarrow> PaymentChallenge \<Rightarrow> jsstring" where
  "deriveChallengeHash h challenge = sha256 h (canonicalJson h (challengeJson challenge))"

definition deriveIdempotencyKey ::
  "int host \<Rightarrow> jsstring \<Rightarrow> jsstring \<Rightarrow> jsstring \<Rightarrow> jsstring \<Rightarrow> int \<Rightarrow> jsstring" where
  "deriveIdempotencyKey h sid pyr challengeId requestHash amount =
     (let payload = canonicalJson h (JObj
            [(lit ''amountMicrousdc'', JNum amount),
             (lit ''challengeId'', JStr challengeId),
             (lit ''payer'', JStr (toLowerCase h pyr)),
             (lit ''requestHash'', JStr requestHash),
             (lit ''sessionId'', JStr sid)])
      in lit ''aceid_'' @ sha256 h payload)"

definition buildPaymentSigningMessage :: "int host \<Rightarrow> 'a UnsignedPayment_scheme \<Rightarrow> jsstring" where
  "buildPaymentSigningMessage h payment =
     lit ''ACE_PAYMENT_V1'' @ [0x0A] @ canonicalJson h (unsignedPaymentJson payment)"

definition toUnsignedPayment :: "SignedPayment \<Rightarrow> UnsignedPayment" where
  "toUnsignedPayment payment = UnsignedPayment.truncate payment"

text \<open>
  \<^verbatim>\<open>obj[key]\<close> on a plain object: the own property if there is one, else a property
  inherited from \<^verbatim>\<open>Object.prototype\<close> (a function or an object, so truthy), else
  \<^verbatim>\<open>undefined\<close>. Every object of the ledger is a plain object: a literal, the result
  of \<^verbatim>\<open>Object.fromEntries\<close>, or a clone from the store.
\<close>

datatype 'v property = Own 'v | Inherited | Undefined

definition objectPrototypeKeys :: "jsstring list" where
  "objectPrototypeKeys =
     [lit ''constructor'', lit ''__defineGetter__'', lit ''__defineSetter__'',
      lit ''hasOwnProperty'', lit ''__lookupGetter__'', lit ''__lookupSetter__'',
      lit ''isPrototypeOf'', lit ''propertyIsEnumerable'', lit ''toString'',
      lit ''valueOf'', lit ''__proto__'', lit ''toLocaleString'']"

definition getProperty :: "'v jsobject \<Rightarrow> jsstring \<Rightarrow> 'v property" where
  "getProperty obj k =
     (case objGet obj k of
        Some v \<Rightarrow> Own v
      | None \<Rightarrow> if k \<in> set objectPrototypeKeys then Inherited else Undefined)"

text \<open>
  \<^verbatim>\<open>attempt.amountMicrousdc\<close> as an operand of \<open>+\<close>: the amount of a stored payment;
  an inherited function or object has no such property, and a number plus
  \<^verbatim>\<open>undefined\<close> is \<open>NaN\<close>.
\<close>

fun attemptAmount :: "SignedPayment property \<Rightarrow> number" where
  "attemptAmount (Own attempt) = Num (p_amountMicrousdc attempt)"
| "attemptAmount Inherited = NaN"
| "attemptAmount Undefined = NaN"

text \<open>
  The wallet is a collaborator: its address and its signature of a message, or nothing
  where the call is rejected.
\<close>

record WalletSigner =
  getAddress :: "jsstring option"
  signMessage :: "jsstring \<Rightarrow> jsstring option"

text \<open>\<^verbatim>\<open>MemorySessionStore\<close>: a map from session ids to copies of the states.\<close>

type_synonym MemorySessionStore = "jsstring \<Rightarrow> SessionState option"

definition load :: "MemorySessionStore \<Rightarrow> jsstring \<Rightarrow> SessionState option" where
  "load states sid = states sid"

definition save :: "MemorySessionStore \<Rightarrow> jsstring \<Rightarrow> SessionState \<Rightarrow> MemorySessionStore" where
  "save states sid st = states(sid \<mapsto> st)"

text \<open>
  A \<^verbatim>\<open>SessionKey\<close> object: its wallet, its store (with the store's content) and
  its state. \<open>sk_signLog\<close> is not a field of the class: it lists the messages handed to
  \<^verbatim>\<open>wallet.signMessage\<close>, oldest first, so that a theorem can say that nothing was
  signed.
\<close>

record SessionKey =
  sk_wallet :: WalletSigner
  sk_store :: MemorySessionStore
  sk_state :: SessionState
  sk_signLog :: "jsstring list"

text \<open>The three readings of the clock that \<^verbatim>\<open>signForChallenge\<close> makes, in milliseconds.\<close>

record SignClock =
  t_ensureActive :: int
  t_challengeCheck :: int
  t_issuedAt :: int

definition pendingSpend :: "SessionState \<Rightarrow> number" where
  "pendingSpend st =
     foldl (\<lambda>sum payment. numAdd sum (Num (p_amountMicrousdc payment))) (Num 0)
       (map snd (ownEntries (pendingAttempts st)))"

definition getSnapshot :: "SessionState \<Rightarrow> SessionSnapshot" where
  "getSnapshot st =
     (let pendingSpendMicrousdc = pendingSpend st
      in \<lparr> snap_sessionId = sessionId st,
           snap_payer = payer st,
           snap_spendLimitMicrousdc = spendLimitMicrousdc st,
           snap_expiresAt = expiresAt st,
           snap_cumulativeSpendMicrousdc = cumulativeSpendMicrousdc st,
           snap_pendingSpendMicrousdc = pendingSpendMicrousdc,
           snap_availableSpendMicrousdc =
             numSub (numSub (Num (spendLimitMicrousdc st)) (cumulativeSpendMicrousdc st))
               pendingSpendMicrousdc \<rparr>)"

text \<open>\<open>a >= b\<close> where \<open>b\<close> is the time of a date string: false when the date is invalid.\<close>

definition reached :: "int host \<Rightarrow> int \<Rightarrow> jsstring \<Rightarrow> bool" where
  "reached h now date = (case dateGetTime h date of None \<Rightarrow> False | Some t \<Rightarrow> now \<ge> t)"

definition ensureActive :: "int host \<Rightarrow> SessionState \<Rightarrow> int \<Rightarrow> error + unit" where
  "ensureActive h st now = (if reached h now (expiresAt st) then Inl SessionExpired else Inr ())"

definition persist :: "SessionKey \<Rightarrow> SessionKey" where
  "persist sk = sk\<lparr> sk_store := save (sk_store sk) (sessionId (sk_state sk)) (sk_state sk) \<rparr>"

definition signForChallenge ::
  "int host \<Rightarrow> SessionKey \<Rightarrow> PaymentChallenge \<Rightarrow> SignRequestContext \<Rightarrow> SignClock
     \<Rightarrow> (error + SignedPayment) \<times> SessionKey" where
  "signForChallenge h sk challenge request clock =
     (let st = sk_state sk in
      case ensureActive h st (t_ensureActive clock) of
        Inl e \<Rightarrow> (Inl e, sk)
      | Inr _ \<Rightarrow>
      if c_version challenge \<noteq> ACE_PAYMENT_VERSION then (Inl UnsupportedChallengeVersion, sk)
      else if c_currency challenge \<noteq> lit ''USDC'' then (Inl UnsupportedCurrency, sk)
      else if reached h (t_challengeCheck clock) (c_expiresAt challenge)
        then (Inl ChallengeExpired, sk)
      else
      let method = toUpperCase h (rq_method request) in
      case deriveResource h (rq_url request) of
        Inl e \<Rightarrow> (Inl e, sk)
      | Inr resource \<Rightarrow>
      if c_method challenge \<noteq> method then (Inl ChallengeMethodMismatch, sk)
      else if c_resource challenge \<noteq> resource then (Inl ChallengeResourceMismatch, sk)
      else
      case deriveRequestHash h
             \<lparr> rq_method = method, rq_url = rq_url request, rq_body = rq_body request \<rparr> of
        Inl e \<Rightarrow> (Inl e, sk)
      | Inr requestHash \<Rightarrow>
      let idempotencyKey =
            deriveIdempotencyKey h (sessionId st) (payer st) (c_challengeId challenge)
              requestHash (c_amountMicrousdc challenge) in
      case getProperty (pendingAttempts st) idempotencyKey of
        Own existing \<Rightarrow> (Inr existing, sk)
      | Inherited \<Rightarrow> (Inl InheritedProperty, sk)
      | Undefined \<Rightarrow>
      let snapshot = getSnapshot st in
      if numGreater (Num (c_amountMicrousdc challenge)) (snap_availableSpendMicrousdc snapshot)
        then (Inl SpendLimitExceeded, sk)
      else
      let unsignedPayment =
            \<lparr> p_version = ACE_PAYMENT_VERSION,
              p_sessionId = sessionId st,
              p_payer = payer st,
              p_challengeId = c_challengeId challenge,
              p_challenge = challenge,
              p_idempotencyKey = idempotencyKey,
              p_requestHash = requestHash,
              p_challengeHash = deriveChallengeHash h challenge,
              p_amountMicrousdc = c_amountMicrousdc challenge,
              p_currency = c_currency challenge,
              p_sessionExpiresAt = expiresAt st,
              p_issuedAt = toISOString h (t_issuedAt clock) \<rparr>;
          signingMessage = buildPaymentSigningMessage h unsignedPayment;
          called = sk\<lparr> sk_signLog := sk_signLog sk @ [signingMessage] \<rparr> in
      case signMessage (sk_wallet sk) signingMessage of
        None \<Rightarrow> (Inl (Thrown (lit ''signMessage'')), called)
      | Some signature \<Rightarrow>
      let signedPayment = UnsignedPayment.extend unsignedPayment \<lparr> p_signature = signature \<rparr>;
          st' = st\<lparr> pendingAttempts :=
                  objSet (fromEntries (ownEntries (pendingAttempts st)))
                    idempotencyKey signedPayment \<rparr>
      in (Inr signedPayment, persist (called\<lparr> sk_state := st' \<rparr>)))"

definition commitPayment :: "SessionKey \<Rightarrow> jsstring \<Rightarrow> SessionKey" where
  "commitPayment sk idempotencyKey =
     (let st = sk_state sk;
          attempt = getProperty (pendingAttempts st) idempotencyKey
      in if attempt = Undefined then sk
         else persist (sk\<lparr> sk_state := st
                \<lparr> cumulativeSpendMicrousdc :=
                    numAdd (cumulativeSpendMicrousdc st) (attemptAmount attempt),
                  pendingAttempts :=
                    fromEntries (filter (\<lambda>kv. fst kv \<noteq> idempotencyKey)
                                   (ownEntries (pendingAttempts st))) \<rparr> \<rparr>))"

definition releasePayment :: "SessionKey \<Rightarrow> jsstring \<Rightarrow> SessionKey" where
  "releasePayment sk idempotencyKey =
     (let st = sk_state sk;
          attempt = getProperty (pendingAttempts st) idempotencyKey
      in if attempt = Undefined then sk
         else persist (sk\<lparr> sk_state := st
                \<lparr> pendingAttempts :=
                    fromEntries (filter (\<lambda>kv. fst kv \<noteq> idempotencyKey)
                                   (ownEntries (pendingAttempts st))) \<rparr> \<rparr>))"

text \<open>
  \<^verbatim>\<open>SessionKey.create\<close> and \<^verbatim>\<open>SessionKey.restore\<close>. \<open>now\<close> is the clock and
  \<open>uuid\<close> the value of \<^verbatim>\<open>randomUUID()\<close>, used where the caller gives none; the
  \<^verbatim>\<open>Date\<close> that a caller gives may be invalid. The two dates are written with
  \<^verbatim>\<open>toISOString\<close> only when a new state is built, after the store was read and
  before it is written.
\<close>

record CreateInput =
  ci_spendLimitMicrousdc :: int
  ci_ttlSeconds :: int
  ci_sessionId :: "jsstring option"
  ci_now :: "date option"

definition create ::
  "int host \<Rightarrow> int \<Rightarrow> jsstring \<Rightarrow> WalletSigner \<Rightarrow> MemorySessionStore \<Rightarrow> CreateInput
     \<Rightarrow> error + SessionKey" where
  "create h now uuid wallet store input =
     (case getAddress wallet of
        None \<Rightarrow> Inl (Thrown (lit ''getAddress''))
      | Some address \<Rightarrow>
      let pyr = toLowerCase h address;
          createdAtDate = (case ci_now input of Some d \<Rightarrow> d | None \<Rightarrow> Some now);
          expiresAtDate = newDate (numAdd (getTime createdAtDate)
                                     (toNumber (ci_ttlSeconds input * 1000))) in
      if ci_ttlSeconds input \<le> 0 then Inl TtlNotPositive
      else
      let sid = (case ci_sessionId input of Some s \<Rightarrow> s | None \<Rightarrow> uuid) in
      case load store sid of
        Some existing \<Rightarrow>
          if payer existing \<noteq> pyr then Inl DifferentPayer
          else Inr \<lparr> sk_wallet = wallet, sk_store = store, sk_state = existing,
                     sk_signLog = [] \<rparr>
      | None \<Rightarrow>
      case dateToISOString h createdAtDate of
        Inl e \<Rightarrow> Inl e
      | Inr createdAtString \<Rightarrow>
      case dateToISOString h expiresAtDate of
        Inl e \<Rightarrow> Inl e
      | Inr expiresAtString \<Rightarrow>
      let st = \<lparr> sessionId = sid,
                 payer = pyr,
                 spendLimitMicrousdc = ci_spendLimitMicrousdc input,
                 createdAt = createdAtString,
                 expiresAt = expiresAtString,
                 cumulativeSpendMicrousdc = Num 0,
                 pendingAttempts = [] \<rparr>
      in Inr \<lparr> sk_wallet = wallet, sk_store = save store sid st, sk_state = st,
                sk_signLog = [] \<rparr>)"

definition restore ::
  "int host \<Rightarrow> WalletSigner \<Rightarrow> MemorySessionStore \<Rightarrow> jsstring \<Rightarrow> error + SessionKey" where
  "restore h wallet store sid =
     (case getAddress wallet of
        None \<Rightarrow> Inl (Thrown (lit ''getAddress''))
      | Some address \<Rightarrow>
      let pyr = toLowerCase h address in
      case load store sid of
        None \<Rightarrow> Inl NoStoredSession
      | Some existing \<Rightarrow>
          if payer existing \<noteq> pyr then Inl DifferentPayer
          else Inr \<lparr> sk_wallet = wallet, sk_store = store, sk_state = existing,
                     sk_signLog = [] \<rparr>)"

definition createChallengeMac :: "int host \<Rightarrow> jsstring \<Rightarrow> PaymentChallenge \<Rightarrow> jsstring" where
  "createChallengeMac h secret challenge =
     hmacSha256 h secret (canonicalJson h (challengeJson (challenge\<lparr> c_mac := None \<rparr>)))"

record CreateChallengeInput =
  cc_secret :: jsstring
  cc_challengeId :: "jsstring option"
  cc_resource :: jsstring
  cc_method :: jsstring
  cc_amountMicrousdc :: int
  cc_issuedAt :: "date option"
  cc_expiresAt :: date
  cc_nonce :: "jsstring option"

text \<open>
  \<open>now\<close> is the clock, \<open>uuid1\<close> and \<open>uuid2\<close> the values of the two possible calls of
  \<^verbatim>\<open>randomUUID()\<close>.
\<close>

definition createChallenge ::
  "int host \<Rightarrow> int \<Rightarrow> jsstring \<Rightarrow> jsstring \<Rightarrow> CreateChallengeInput
     \<Rightarrow> error + PaymentChallenge" where
  "createChallenge h now uuid1 uuid2 input =
     (case dateToISOString h (case cc_issuedAt input of Some d \<Rightarrow> d | None \<Rightarrow> Some now) of
        Inl e \<Rightarrow> Inl e
      | Inr issued \<Rightarrow>
      case dateToISOString h (cc_expiresAt input) of
        Inl e \<Rightarrow> Inl e
      | Inr expires \<Rightarrow>
      let challengeBase =
            \<lparr> c_version = ACE_PAYMENT_VERSION,
              c_challengeId = (case cc_challengeId input of Some i \<Rightarrow> i | None \<Rightarrow> uuid1),
              c_resource = cc_resource input,
              c_method = toUpperCase h (cc_method input),
              c_amountMicrousdc = cc_amountMicrousdc input,
              c_currency = lit ''USDC'',
              c_issuedAt = issued,
              c_expiresAt = expires,
              c_nonce = (case cc_nonce input of Some n \<Rightarrow> n | None \<Rightarrow> uuid2),
              c_mac = None \<rparr>;
          mac = createChallengeMac h (cc_secret input) challengeBase
      in Inr (challengeBase\<lparr> c_mac := Some mac \<rparr>))"

definition verifyChallenge :: "int host \<Rightarrow> PaymentChallenge \<Rightarrow> jsstring \<Rightarrow> bool" where
  "verifyChallenge h challenge secret =
     (let recomputed = createChallengeMac h secret challenge
      in Some recomputed = c_mac challenge)"

section \<open>The interceptor (x402-interceptor.ts)\<close>

record X402PaymentRequiredAccept =
  a_scheme :: jsstring
  a_network :: jsstring
  a_amount :: jsstring
  a_asset :: jsstring
  a_payTo :: jsstring
  a_maxTimeoutSeconds :: "int option"
  a_extra :: "PaymentChallenge option option"

record X402PaymentRequired =
  x_x402Version :: int
  x_error :: jsstring
  x_accepts :: "X402PaymentRequiredAccept list option"

record PaymentRequiredBody =
  b_challenge :: "PaymentChallenge option"

text \<open>
  The header codecs of session.ts are base64 and \<^verbatim>\<open>JSON.parse\<close> /
  \<^verbatim>\<open>JSON.stringify\<close> of the host with a cast of the result; they are parameters.
  A decoder gives nothing where the host throws (also where the decoded value has not
  the shape that the reading code needs). \<open>parseJsonBody\<close> is
  \<^verbatim>\<open>response.clone().json()\<close>.
\<close>

record Codec =
  decodePaymentRequiredHeader :: "jsstring \<Rightarrow> X402PaymentRequired option"
  encodePaymentRequiredHeader :: "X402PaymentRequired \<Rightarrow> jsstring"
  decodePaymentHeader :: "jsstring \<Rightarrow> SignedPayment option"
  encodePaymentHeader :: "SignedPayment \<Rightarrow> jsstring"
  parseJsonBody :: "jsstring \<Rightarrow> PaymentRequiredBody option"
  base64Json :: "int json \<Rightarrow> jsstring"

text \<open>
  A response and the arguments of \<^verbatim>\<open>fetch\<close>. \<^verbatim>\<open>Headers\<close> compares names
  without case: a header map is keyed by the lower-case name.
\<close>

record Response =
  rs_status :: int
  rs_headers :: "jsstring \<Rightarrow> jsstring option"
  rs_body :: jsstring

datatype FetchInput = InputString jsstring | InputURL jsstring | InputRequest jsstring jsstring

datatype BodyInit = StringBody jsstring | OtherBody

record RequestInit =
  ri_method :: "jsstring option"
  ri_headers :: "jsstring \<Rightarrow> jsstring option"
  ri_body :: "BodyInit option"

fun resolveUrl :: "FetchInput \<Rightarrow> jsstring" where
  "resolveUrl (InputString url) = url"
| "resolveUrl (InputURL url) = url"
| "resolveUrl (InputRequest url m) = url"

definition resolveMethod :: "int host \<Rightarrow> FetchInput \<Rightarrow> RequestInit \<Rightarrow> jsstring" where
  "resolveMethod h input init =
     (let fromInput = (case input of
                         InputRequest url m \<Rightarrow> toUpperCase h m
                       | _ \<Rightarrow> lit ''GET'')
      in case ri_method init of
           Some m \<Rightarrow> if m \<noteq> [] then toUpperCase h m else fromInput
         | None \<Rightarrow> fromInput)"

definition resolveBody :: "RequestInit \<Rightarrow> jsstring option" where
  "resolveBody init =
     (case ri_body init of
        Some (StringBody b) \<Rightarrow> if b = [] then None else Some b
      | _ \<Rightarrow> None)"

fun startsWith :: "jsstring \<Rightarrow> jsstring \<Rightarrow> bool" where
  "startsWith s [] = True"
| "startsWith [] (p # ps) = False"
| "startsWith (c # cs) (p # ps) = (c = p \<and> startsWith cs ps)"

fun includes_str :: "jsstring \<Rightarrow> jsstring \<Rightarrow> bool" where
  "includes_str [] pat = (pat = [])"
| "includes_str (c # cs) pat = (startsWith (c # cs) pat \<or> includes_str cs pat)"

fun scanAccepts :: "X402PaymentRequiredAccept list \<Rightarrow> PaymentChallenge option" where
  "scanAccepts [] = None"
| "scanAccepts (acceptance # rest) =
     (case a_extra acceptance of
        Some (Some challenge) \<Rightarrow>
          if c_version challenge = ACE_PAYMENT_VERSION then Some challenge
          else scanAccepts rest
      | _ \<Rightarrow> scanAccepts rest)"

definition extractChallengeFromRequired :: "X402PaymentRequired \<Rightarrow> PaymentChallenge option" where
  "extractChallengeFromRequired required =
     (case x_accepts required of
        None \<Rightarrow> None
      | Some accepts \<Rightarrow> if length accepts = 0 then None else scanAccepts accepts)"

definition extractChallenge :: "Codec \<Rightarrow> Response \<Rightarrow> error + PaymentChallenge option" where
  "extractChallenge cdc response =
     (let fromHeader =
            (case rs_headers response (lit ''payment-required'') of
               None \<Rightarrow> None
             | Some paymentRequiredHeader \<Rightarrow>
                 if paymentRequiredHeader = [] then None
                 else (case decodePaymentRequiredHeader cdc paymentRequiredHeader of
                         None \<Rightarrow> None
                       | Some required \<Rightarrow> extractChallengeFromRequired required))
      in case fromHeader of
           Some challenge \<Rightarrow> Inr (Some challenge)
         | None \<Rightarrow>
             let contentType = (case rs_headers response (lit ''content-type'') of
                                  Some ct \<Rightarrow> ct | None \<Rightarrow> [])
             in if \<not> includes_str contentType (lit ''application/json'') then Inr None
                else (case parseJsonBody cdc (rs_body response) of
                        None \<Rightarrow> Inl (Thrown (lit ''json''))
                      | Some body \<Rightarrow>
                          (case b_challenge body of
                             None \<Rightarrow> Inr None
                           | Some challenge \<Rightarrow>
                               if c_version challenge \<noteq> ACE_PAYMENT_VERSION then Inr None
                               else Inr (Some challenge))))"

text \<open>
  The calls that the interceptor makes on the session key, in order, with their
  arguments. The transport is a
  function of the number of the call (0 for the first request, 1 for the retry) and of
  its arguments; it returns a response or throws.
\<close>

datatype SessionCall =
    CallSignForChallenge PaymentChallenge SignRequestContext
  | CallCommitPayment jsstring
  | CallReleasePayment jsstring

definition hasPaymentHeader :: "RequestInit \<Rightarrow> bool" where
  "hasPaymentHeader init =
     (ri_headers init (lit ''payment-signature'') \<noteq> None
      \<or> ri_headers init (lit ''x-payment'') \<noteq> None
      \<or> ri_headers init (lit ''x-ace-payment'') \<noteq> None)"

definition responseOk :: "Response \<Rightarrow> bool" where
  "responseOk r = (200 \<le> rs_status r \<and> rs_status r \<le> 299)"

definition x402Fetch ::
  "int host \<Rightarrow> Codec \<Rightarrow> (nat \<Rightarrow> FetchInput \<Rightarrow> RequestInit \<Rightarrow> error + Response) \<Rightarrow> SignClock
     \<Rightarrow> SessionKey \<Rightarrow> FetchInput \<Rightarrow> RequestInit
     \<Rightarrow> (error + Response) \<times> SessionKey \<times> SessionCall list" where
  "x402Fetch h cdc fetchImpl clock sessionKey input init =
     (case fetchImpl 0 input init of
        Inl e \<Rightarrow> (Inl e, sessionKey, [])
      | Inr firstResponse \<Rightarrow>
      if rs_status firstResponse \<noteq> 402 then (Inr firstResponse, sessionKey, [])
      else if hasPaymentHeader init then (Inr firstResponse, sessionKey, [])
      else
      case extractChallenge cdc firstResponse of
        Inl e \<Rightarrow> (Inl e, sessionKey, [])
      | Inr None \<Rightarrow> (Inr firstResponse, sessionKey, [])
      | Inr (Some challenge) \<Rightarrow>
      let request = \<lparr> rq_method = resolveMethod h input init,
                      rq_url = resolveUrl input,
                      rq_body = resolveBody init \<rparr>;
          signCall = CallSignForChallenge challenge request in
      case signForChallenge h sessionKey challenge request clock of
        (Inl e, sk1) \<Rightarrow> (Inl e, sk1, [signCall])
      | (Inr signed1, sk1) \<Rightarrow>
      let retryHeaders = (ri_headers init)
            (lit ''payment-signature'' \<mapsto> encodePaymentHeader cdc signed1,
             lit ''x-ace-idempotency-key'' \<mapsto> p_idempotencyKey signed1) in
      case fetchImpl 1 input (init\<lparr> ri_headers := retryHeaders \<rparr>) of
        Inl e \<Rightarrow>
          (Inl e, releasePayment sk1 (p_idempotencyKey signed1),
           [signCall, CallReleasePayment (p_idempotencyKey signed1)])
      | Inr retryResponse \<Rightarrow>
      if responseOk retryResponse then
        (case rs_headers retryResponse (lit ''payment-signature'') of
           None \<Rightarrow>
             (Inr retryResponse, commitPayment sk1 (p_idempotencyKey signed1),
              [signCall, CallCommitPayment (p_idempotencyKey signed1)])
         | Some echoedPaymentHeader \<Rightarrow>
             if echoedPaymentHeader = [] then
               (Inr retryResponse, commitPayment sk1 (p_idempotencyKey signed1),
                [signCall, CallCommitPayment (p_idempotencyKey signed1)])
             else (case decodePaymentHeader cdc echoedPaymentHeader of
                     None \<Rightarrow> (Inl (Thrown (lit ''json'')), sk1, [signCall])
                   | Some echoedPayment \<Rightarrow>
                       (Inr retryResponse,
                        commitPayment sk1 (p_idempotencyKey echoedPayment),
                        [signCall, CallCommitPayment (p_idempotencyKey echoedPayment)])))
      else
        (Inr retryResponse, releasePayment sk1 (p_idempotencyKey signed1),
         [signCall, CallReleasePayment (p_idempotencyKey signed1)]))"

section \<open>The origin (demo-compute-api)\<close>

record ComputeResult =
  cr_computeId :: jsstring
  cr_output :: jsstring

record PaymentLogRecord =
  r_idempotencyKey :: jsstring
  r_payer :: jsstring
  r_amountMicrousdc :: int
  r_requestHash :: jsstring
  r_challengeId :: jsstring
  r_paidAt :: jsstring
  r_result :: ComputeResult

text \<open>\<^verbatim>\<open>PaymentLedger\<close>: the records of a \<^verbatim>\<open>Map\<close>, by idempotency key.\<close>

type_synonym PaymentLedger = "jsstring \<Rightarrow> PaymentLogRecord option"

definition ledgerGet :: "PaymentLedger \<Rightarrow> jsstring \<Rightarrow> PaymentLogRecord option" where
  "ledgerGet records idempotencyKey = records idempotencyKey"

definition ledgerPut :: "PaymentLedger \<Rightarrow> PaymentLogRecord \<Rightarrow> PaymentLedger" where
  "ledgerPut records record = records(r_idempotencyKey record \<mapsto> record)"

record ServerConfig =
  cfg_port :: int
  cfg_amountMicrousdc :: int
  cfg_challengeSecret :: jsstring
  cfg_challengeTtlSeconds :: int
  cfg_ledgerPath :: jsstring

text \<open>
  The request as the server sees it, and what the handler reads from its collaborators:
  \<^verbatim>\<open>new URL(url, base)\<close> with the parts of the result that the handler uses,
  \<^verbatim>\<open>verifyMessage\<close> of the signature library (the recovered address, or nothing
  where it throws), the successive readings of the clock and the successive values of
  \<^verbatim>\<open>randomUUID()\<close> during the request.
\<close>

datatype HeaderValue = Single jsstring | Multiple "jsstring list"

record IncomingMessage =
  im_method :: "jsstring option"
  im_url :: "jsstring option"
  im_headers :: "jsstring \<Rightarrow> HeaderValue option"

record ParsedURL =
  u_pathname :: jsstring
  u_search :: jsstring
  u_href :: jsstring
  u_task :: "jsstring option"

record OriginEnv =
  newURLWithBase :: "jsstring \<Rightarrow> jsstring \<Rightarrow> ParsedURL option"
  verifyMessage :: "jsstring \<Rightarrow> jsstring \<Rightarrow> jsstring option"
  clockAt :: "nat \<Rightarrow> int"
  uuidAt :: "nat \<Rightarrow> jsstring"

datatype Payload =
    NotFound
  | PaymentRequired PaymentChallenge
  | IdempotencyKeyConflict
  | OkPayload bool ComputeResult jsstring int
  | InvalidPayment error

record ServerResponse =
  sr_status :: int
  sr_payload :: Payload
  sr_headers :: "(jsstring \<times> jsstring) list"

definition sendJson :: "int \<Rightarrow> Payload \<Rightarrow> (jsstring \<times> jsstring) list \<Rightarrow> ServerResponse" where
  "sendJson statusCode payload headers =
     \<lparr> sr_status = statusCode, sr_payload = payload,
       sr_headers = (lit ''content-type'', lit ''application/json'') # headers \<rparr>"

definition buildChallengeForRequest ::
  "int host \<Rightarrow> OriginEnv \<Rightarrow> ServerConfig \<Rightarrow> jsstring \<Rightarrow> jsstring
     \<Rightarrow> error + PaymentChallenge" where
  "buildChallengeForRequest h env config resource method =
     (let now = clockAt env 0
      in createChallenge h now (uuidAt env 0) (uuidAt env 1)
           \<lparr> cc_secret = cfg_challengeSecret config,
             cc_challengeId = Some (uuidAt env 0),
             cc_resource = resource,
             cc_method = method,
             cc_amountMicrousdc = cfg_amountMicrousdc config,
             cc_issuedAt = Some (Some now),
             cc_expiresAt = newDate (numAdd (Num now)
                                       (toNumber (cfg_challengeTtlSeconds config * 1000))),
             cc_nonce = None \<rparr>)"

definition buildPaymentRequiredHeaderValue ::
  "int host \<Rightarrow> Codec \<Rightarrow> PaymentChallenge \<Rightarrow> jsstring" where
  "buildPaymentRequiredHeaderValue h cdc challenge =
     encodePaymentRequiredHeader cdc
       \<lparr> x_x402Version = X402_VERSION,
         x_error = lit ''payment_required'',
         x_accepts = Some
           [\<lparr> a_scheme = lit ''exact'',
              a_network = lit ''eip155:84532'',
              a_amount = numberToString h (c_amountMicrousdc challenge),
              a_asset = lit ''USDC'',
              a_payTo = lit ''ace:phase0:compute-api'',
              a_maxTimeoutSeconds = None,
              a_extra = Some (Some challenge) \<rparr>] \<rparr>"

definition validateSignedPayment ::
  "int host \<Rightarrow> OriginEnv \<Rightarrow> SignedPayment \<Rightarrow> jsstring \<Rightarrow> jsstring \<Rightarrow> jsstring \<Rightarrow> ServerConfig
     \<Rightarrow> error + jsstring" where
  "validateSignedPayment h env payment expectedResource expectedMethod requestHash config =
     (if p_version payment \<noteq> ACE_PAYMENT_VERSION then Inl UnsupportedPaymentVersion
      else if p_currency payment \<noteq> lit ''USDC'' then Inl UnsupportedPaymentCurrency
      else if p_challengeId payment \<noteq> c_challengeId (p_challenge payment)
        then Inl ChallengeIdMismatch
      else if c_resource (p_challenge payment) \<noteq> expectedResource
        then Inl ChallengeResourceMismatch
      else if c_method (p_challenge payment) \<noteq> expectedMethod
        then Inl ChallengeMethodMismatch
      else if p_challengeHash payment \<noteq> deriveChallengeHash h (p_challenge payment)
        then Inl ChallengeHashMismatch
      else if p_requestHash payment \<noteq> requestHash then Inl RequestHashMismatch
      else if \<not> verifyChallenge h (p_challenge payment) (cfg_challengeSecret config)
        then Inl ChallengeMacFailed
      else if reached h (clockAt env 0) (c_expiresAt (p_challenge payment))
        then Inl ChallengeExpired
      else
      let expectedIdempotencyKey =
            deriveIdempotencyKey h (p_sessionId payment) (p_payer payment)
              (c_challengeId (p_challenge payment)) (p_requestHash payment)
              (p_amountMicrousdc payment) in
      if expectedIdempotencyKey \<noteq> p_idempotencyKey payment then Inl InvalidIdempotencyKey
      else if p_amountMicrousdc payment \<noteq> cfg_amountMicrousdc config
        then Inl IncorrectPaymentAmount
      else if reached h (clockAt env 1) (p_sessionExpiresAt payment)
        then Inl PaymentSessionExpired
      else
      case verifyMessage env (buildPaymentSigningMessage h (toUnsignedPayment payment))
             (p_signature payment) of
        None \<Rightarrow> Inl (Thrown (lit ''verifyMessage''))
      | Some address \<Rightarrow>
          let recoveredAddress = toLowerCase h address in
          if recoveredAddress \<noteq> toLowerCase h (p_payer payment) then Inl SignatureMismatch
          else Inr recoveredAddress)"

definition paidHeaders ::
  "Codec \<Rightarrow> jsstring \<Rightarrow> jsstring \<Rightarrow> (jsstring \<times> jsstring) list" where
  "paidHeaders cdc paymentSignatureHeader idempotencyKey =
     [(lit ''PAYMENT-SIGNATURE'', paymentSignatureHeader),
      (lit ''PAYMENT-RESPONSE'',
       base64Json cdc (JObj [(lit ''x402Version'', JNum X402_VERSION),
                            (lit ''settled'', JBool True),
                            (lit ''idempotencyKey'', JStr idempotencyKey)])),
      (lit ''x-ace-idempotency-key'', idempotencyKey)]"

text \<open>
  The request handler of \<^verbatim>\<open>start\<close>: the response and the ledger afterwards. Every
  error thrown inside the handler is answered with 422.
\<close>

definition handleRequest ::
  "int host \<Rightarrow> Codec \<Rightarrow> OriginEnv \<Rightarrow> ServerConfig \<Rightarrow> PaymentLedger \<Rightarrow> IncomingMessage
     \<Rightarrow> ServerResponse \<times> PaymentLedger" where
  "handleRequest h cdc env config ledger request =
     (let invalid = (\<lambda>e. (sendJson 422 (InvalidPayment e) [], ledger));
          method = toUpperCase h (case im_method request of Some m \<Rightarrow> m | None \<Rightarrow> lit ''GET'');
          base = lit ''http://'' @
                 (case im_headers request (lit ''host'') of
                    Some (Single hostName) \<Rightarrow> hostName
                  | _ \<Rightarrow> lit ''localhost:'' @ numberToString h (cfg_port config)) in
      case newURLWithBase env (case im_url request of Some u \<Rightarrow> u | None \<Rightarrow> lit ''/'') base of
        None \<Rightarrow> invalid InvalidURL
      | Some parsedUrl \<Rightarrow>
      if u_pathname parsedUrl \<noteq> lit ''/compute'' then (sendJson 404 NotFound [], ledger)
      else
      let resource = u_pathname parsedUrl @ u_search parsedUrl in
      case deriveRequestHash h
             \<lparr> rq_method = method, rq_url = u_href parsedUrl, rq_body = None \<rparr> of
        Inl e \<Rightarrow> invalid e
      | Inr requestHash \<Rightarrow>
      let paymentSignatureHeader =
            (case im_headers request (lit ''payment-signature'') of
               Some v \<Rightarrow> Some v
             | None \<Rightarrow>
                 (case im_headers request (lit ''x-payment'') of
                    Some v \<Rightarrow> Some v
                  | None \<Rightarrow> im_headers request (lit ''x-ace-payment''))) in
      case (case paymentSignatureHeader of
              Some (Single v) \<Rightarrow> if v = [] then None else Some v
            | _ \<Rightarrow> None) of
        None \<Rightarrow>
          (case buildChallengeForRequest h env config resource method of
             Inl e \<Rightarrow> invalid e
           | Inr challenge \<Rightarrow>
               (sendJson 402 (PaymentRequired challenge)
                  [(lit ''PAYMENT-REQUIRED'', buildPaymentRequiredHeaderValue h cdc challenge)],
                ledger))
      | Some headerValue \<Rightarrow>
      case decodePaymentHeader cdc headerValue of
        None \<Rightarrow> invalid (Thrown (lit ''json''))
      | Some payment \<Rightarrow>
      case validateSignedPayment h env payment resource method requestHash config of
        Inl e \<Rightarrow> invalid e
      | Inr _ \<Rightarrow>
      case ledgerGet ledger (p_idempotencyKey payment) of
        Some existing \<Rightarrow>
          if r_payer existing \<noteq> toLowerCase h (p_payer payment)
             \<or> r_amountMicrousdc existing \<noteq> p_amountMicrousdc payment
             \<or> r_requestHash existing \<noteq> p_requestHash payment
          then (sendJson 409 IdempotencyKeyConflict [], ledger)
          else (sendJson 200
                  (OkPayload True (r_result existing) (r_idempotencyKey existing)
                     (r_amountMicrousdc existing))
                  (paidHeaders cdc headerValue (r_idempotencyKey existing)),
                ledger)
      | None \<Rightarrow>
      let task = (case u_task parsedUrl of Some t \<Rightarrow> t | None \<Rightarrow> lit ''default-compute'');
          result = \<lparr> cr_computeId = uuidAt env 0,
                     cr_output = lit ''computed:'' @ task @ lit '':ok'' \<rparr>;
          record = \<lparr> r_idempotencyKey = p_idempotencyKey payment,
                     r_payer = toLowerCase h (p_payer payment),
                     r_amountMicrousdc = p_amountMicrousdc payment,
                     r_requestHash = p_requestHash payment,
                     r_challengeId = p_challengeId payment,
                     r_paidAt = toISOString h (clockAt env 2),
                     r_result = result \<rparr>
      in (sendJson 200
            (OkPayload False result (r_idempotencyKey record) (r_amountMicrousdc record))
            (paidHeaders cdc headerValue (r_idempotencyKey record)),
          ledgerPut ledger record))"

section \<open>Invariants and sequences of operations\<close>

text \<open>
  The representation invariant of a state (an object has no two properties of one name),
  the data-model requirement that pending amounts are positive, and the spend-safety
  invariant of the ledger: the cumulative spend is a number and, in exact arithmetic,
  the cumulative spend plus the sum of the pending amounts is at most the limit.
\<close>

definition wfState :: "SessionState \<Rightarrow> bool" where
  "wfState st = distinct (map fst (pendingAttempts st))"

definition positiveAmounts :: "SessionState \<Rightarrow> bool" where
  "positiveAmounts st = list_all (\<lambda>kv. 0 < p_amountMicrousdc (snd kv)) (pendingAttempts st)"

definition pendingTotal :: "SessionState \<Rightarrow> int" where
  "pendingTotal st = sum_list (map (\<lambda>kv. p_amountMicrousdc (snd kv)) (pendingAttempts st))"

definition spendSafe :: "SessionState \<Rightarrow> bool" where
  "spendSafe st =
     (case cumulativeSpendMicrousdc st of
        Num c \<Rightarrow> c + pendingTotal st \<le> spendLimitMicrousdc st
      | _ \<Rightarrow> False)"

text \<open>
  The range in which the sums and differences of the ledger are exact: the limit is at
  most \<^verbatim>\<open>Number.MAX_SAFE_INTEGER\<close> and the cumulative spend is not negative.
\<close>

definition maxSafeInteger :: int where
  "maxSafeInteger = 2 ^ 53 - 1"

definition exactRange :: "SessionState \<Rightarrow> bool" where
  "exactRange st =
     (spendLimitMicrousdc st \<le> maxSafeInteger
      \<and> (case cumulativeSpendMicrousdc st of Num c \<Rightarrow> 0 \<le> c | _ \<Rightarrow> False))"

definition safeState :: "SessionState \<Rightarrow> bool" where
  "safeState st = (wfState st \<and> positiveAmounts st \<and> exactRange st \<and> spendSafe st)"

definition storeSafe :: "MemorySessionStore \<Rightarrow> bool" where
  "storeSafe states = (\<forall>sid st. states sid = Some st \<longrightarrow> safeState st)"

text \<open>The operations of one session key, and a run of them.\<close>

datatype LedgerOp =
    SignForChallenge PaymentChallenge SignRequestContext SignClock
  | CommitPayment jsstring
  | ReleasePayment jsstring

fun applyOp :: "int host \<Rightarrow> SessionKey \<Rightarrow> LedgerOp \<Rightarrow> SessionKey" where
  "applyOp h sk (SignForChallenge challenge request clock) =
     snd (signForChallenge h sk challenge request clock)"
| "applyOp h sk (CommitPayment k) = commitPayment sk k"
| "applyOp h sk (ReleasePayment k) = releasePayment sk k"

definition runOps :: "int host \<Rightarrow> SessionKey \<Rightarrow> LedgerOp list \<Rightarrow> SessionKey" where
  "runOps h sk ops = foldl (applyOp h) sk ops"

text \<open>
  A process with one store and the session keys created so far. \<open>Create\<close> calls
  \<^verbatim>\<open>SessionKey.create\<close> on the store (with the clock and the random id of that
  call) and keeps the new key, \<open>Restore\<close> does so with \<^verbatim>\<open>SessionKey.restore\<close>;
  \<open>OnKey i\<close> calls an operation on the \<open>i\<close>-th key, which sees and writes the shared
  store.
\<close>

datatype SessionOp =
    Create int jsstring WalletSigner CreateInput
  | Restore WalletSigner jsstring
  | OnKey nat LedgerOp

record System =
  sys_store :: MemorySessionStore
  sys_keys :: "SessionKey list"

fun applySessionOp :: "int host \<Rightarrow> System \<Rightarrow> SessionOp \<Rightarrow> System" where
  "applySessionOp h sys (Create now uuid wallet input) =
     (case create h now uuid wallet (sys_store sys) input of
        Inl e \<Rightarrow> sys
      | Inr sk \<Rightarrow> \<lparr> sys_store = sk_store sk, sys_keys = sys_keys sys @ [sk] \<rparr>)"
| "applySessionOp h sys (Restore wallet sid) =
     (case restore h wallet (sys_store sys) sid of
        Inl e \<Rightarrow> sys
      | Inr sk \<Rightarrow> \<lparr> sys_store = sk_store sk, sys_keys = sys_keys sys @ [sk] \<rparr>)"
| "applySessionOp h sys (OnKey i op) =
     (if i < length (sys_keys sys)
      then (let sk' = applyOp h ((sys_keys sys ! i)\<lparr> sk_store := sys_store sys \<rparr>) op
            in \<lparr> sys_store = sk_store sk', sys_keys = (sys_keys sys)[i := sk'] \<rparr>)
      else sys)"

definition runSession :: "int host \<Rightarrow> System \<Rightarrow> SessionOp list \<Rightarrow> System" where
  "runSession h sys ops = foldl (applySessionOp h) sys ops"

text \<open>
  The operations of the amended spend-safety claim: a challenge asks for a positive
  amount, a session is created with a limit that is not negative and at most
  \<^verbatim>\<open>Number.MAX_SAFE_INTEGER\<close>, and a committed key is not the name of a property of
  \<^verbatim>\<open>Object.prototype\<close>.
\<close>

fun ledgerOpOk :: "LedgerOp \<Rightarrow> bool" where
  "ledgerOpOk (SignForChallenge challenge request clock) = (0 < c_amountMicrousdc challenge)"
| "ledgerOpOk (CommitPayment k) = (k \<notin> set objectPrototypeKeys)"
| "ledgerOpOk (ReleasePayment k) = True"

fun sessionOpOk :: "SessionOp \<Rightarrow> bool" where
  "sessionOpOk (Create now uuid wallet input) =
     (0 \<le> ci_spendLimitMicrousdc input \<and> ci_spendLimitMicrousdc input \<le> maxSafeInteger)"
| "sessionOpOk (Restore wallet sid) = True"
| "sessionOpOk (OnKey i op) = ledgerOpOk op"

definition sysSafe :: "System \<Rightarrow> bool" where
  "sysSafe sys =
     (storeSafe (sys_store sys) \<and> list_all (\<lambda>sk. safeState (sk_state sk)) (sys_keys sys))"

section \<open>A host for the closed examples\<close>

text \<open>
  The theorems below hold for every host. The closed examples need one: this host
  compares keys by code units, writes numbers in decimal, quotes a string by enclosing
  it in double quotes (right for the strings of the examples), maps the case of ASCII
  letters, reads a date written as a decimal number of milliseconds, and takes a URL as
  its own path. Its digests are injective stand-ins, not SHA-256: no example depends on
  the value of a digest.
\<close>

fun codeUnitCompare :: "jsstring \<Rightarrow> jsstring \<Rightarrow> int" where
  "codeUnitCompare [] [] = 0"
| "codeUnitCompare [] (y # ys) = - 1"
| "codeUnitCompare (x # xs) [] = 1"
| "codeUnitCompare (x # xs) (y # ys) =
     (if x < y then - 1 else if y < x then 1 else codeUnitCompare xs ys)"

fun showNat :: "nat \<Rightarrow> jsstring" where
  "showNat n =
     (if n < 10 then [of_nat (48 + n)] else showNat (n div 10) @ [of_nat (48 + n mod 10)])"

declare showNat.simps [simp del]

definition showInt :: "int \<Rightarrow> jsstring" where
  "showInt i = (if i < 0 then lit ''-'' @ showNat (nat (- i)) else showNat (nat i))"

definition asciiUpper :: "16 word \<Rightarrow> 16 word" where
  "asciiUpper c = (if 0x61 \<le> c \<and> c \<le> 0x7A then c - 0x20 else c)"

definition asciiLower :: "16 word \<Rightarrow> 16 word" where
  "asciiLower c = (if 0x41 \<le> c \<and> c \<le> 0x5A then c + 0x20 else c)"

definition demoHost :: "int host" where
  "demoHost =
     \<lparr> localeCompare = codeUnitCompare,
       quoteJSON = (\<lambda>s. lit ''\"'' @ s @ lit ''\"''),
       numberToString = showInt,
       sha256 = (\<lambda>s. s),
       hmacSha256 = (\<lambda>secret s. secret @ s),
       toUpperCase = map asciiUpper,
       toLowerCase = map asciiLower,
       newURL = (\<lambda>url. Some (url, [])),
       dateGetTime = (\<lambda>s. if s \<noteq> [] \<and> list_all isDigit s
                          then Some (int (decimalValue s)) else None),
       toISOString = showInt \<rparr>"

definition demoWallet :: WalletSigner where
  "demoWallet =
     \<lparr> getAddress = Some (lit ''0xABC''),
       signMessage = (\<lambda>message. Some (lit ''0xsig'')) \<rparr>"

text \<open>A session of 0.2 USDC that expires at 9000 ms, with nothing spent or pending.\<close>

definition demoState :: SessionState where
  "demoState =
     \<lparr> sessionId = lit ''s1'', payer = lit ''0xabc'', spendLimitMicrousdc = 200000,
       createdAt = lit ''0'', expiresAt = lit ''9000'',
       cumulativeSpendMicrousdc = Num 0, pendingAttempts = [] \<rparr>"

definition demoKey :: SessionKey where
  "demoKey =
     \<lparr> sk_wallet = demoWallet, sk_store = [lit ''s1'' \<mapsto> demoState],
       sk_state = demoState, sk_signLog = [] \<rparr>"

text \<open>A challenge for \<open>amount\<close> on \<^verbatim>\<open>GET /compute\<close> that expires at 500 ms.\<close>

definition demoChallenge :: "int \<Rightarrow> PaymentChallenge" where
  "demoChallenge amount =
     \<lparr> c_version = ACE_PAYMENT_VERSION, c_challengeId = lit ''challenge-1'',
       c_resource = lit ''/compute'', c_method = lit ''GET'',
       c_amountMicrousdc = amount, c_currency = lit ''USDC'',
       c_issuedAt = lit ''0'', c_expiresAt = lit ''500'',
       c_nonce = lit ''nonce-1'', c_mac = Some (lit ''mac'') \<rparr>"

definition demoRequest :: SignRequestContext where
  "demoRequest = \<lparr> rq_method = lit ''get'', rq_url = lit ''/compute'', rq_body = None \<rparr>"

definition clockAll :: "int \<Rightarrow> SignClock" where
  "clockAll t = \<lparr> t_ensureActive = t, t_challengeCheck = t, t_issuedAt = t \<rparr>"

text \<open>A payment of the session, and a key that holds two pending payments.\<close>

definition demoPayment :: "jsstring \<Rightarrow> int \<Rightarrow> SignedPayment" where
  "demoPayment k amount =
     \<lparr> p_version = ACE_PAYMENT_VERSION, p_sessionId = lit ''s1'', p_payer = lit ''0xabc'',
       p_challengeId = lit ''challenge-1'', p_challenge = demoChallenge amount,
       p_idempotencyKey = k, p_requestHash = lit ''r'', p_challengeHash = lit ''c'',
       p_amountMicrousdc = amount, p_currency = lit ''USDC'',
       p_sessionExpiresAt = lit ''9000'', p_issuedAt = lit ''100'',
       p_signature = lit ''0xsig'' \<rparr>"

definition demoKey2 :: SessionKey where
  "demoKey2 = demoKey\<lparr> sk_state := demoState\<lparr> pendingAttempts :=
       [(lit ''aceid_1'', demoPayment (lit ''aceid_1'') 50000),
        (lit ''aceid_2'', demoPayment (lit ''aceid_2'') 70000)] \<rparr> \<rparr>"

text \<open>
  The hash of \<open>demoRequest\<close> and the idempotency key of the payment that a session of
  \<open>demoWallet\<close> signs for \<open>demoChallenge amount\<close> on that request.
\<close>

definition demoRequestHash :: jsstring where
  "demoRequestHash =
     projr (deriveRequestHash demoHost
       \<lparr> rq_method = lit ''GET'', rq_url = lit ''/compute'', rq_body = None \<rparr>)"

definition demoKeyOf :: "jsstring \<Rightarrow> int \<Rightarrow> jsstring" where
  "demoKeyOf sid amount =
     deriveIdempotencyKey demoHost sid (lit ''0xabc'') (lit ''challenge-1'') demoRequestHash amount"

text \<open>
  A run: a session of 1 USDC is created at 0 ms for 60 s (\<open>demoSession\<close> is its state
  with a given limit, cumulative spend and pending map); a challenge of 0.25 USDC is
  signed and its payment committed; the challenge is signed again and that payment
  released; the session is restored from the store.
\<close>

definition demoSession :: "int \<Rightarrow> number \<Rightarrow> SignedPayment jsobject \<Rightarrow> SessionState" where
  "demoSession limit spent pending =
     \<lparr> sessionId = lit ''s9'', payer = lit ''0xabc'', spendLimitMicrousdc = limit,
       createdAt = lit ''0'', expiresAt = lit ''60000'',
       cumulativeSpendMicrousdc = spent, pendingAttempts = pending \<rparr>"

definition demoCreate :: "int \<Rightarrow> SessionOp" where
  "demoCreate limit =
     Create 0 (lit ''s9'') demoWallet
       \<lparr> ci_spendLimitMicrousdc = limit, ci_ttlSeconds = 60,
         ci_sessionId = None, ci_now = None \<rparr>"

definition demoOps :: "SessionOp list" where
  "demoOps =
     [demoCreate 1000000,
      OnKey 0 (SignForChallenge (demoChallenge 250000) demoRequest (clockAll 100)),
      OnKey 0 (CommitPayment (demoKeyOf (lit ''s9'') 250000)),
      OnKey 0 (SignForChallenge (demoChallenge 250000) demoRequest (clockAll 200)),
      OnKey 0 (ReleasePayment (demoKeyOf (lit ''s9'') 250000)),
      Restore demoWallet (lit ''s9'')]"

text \<open>
  A run beyond the range of exact sums: the limit is \<open>2^53 + 4\<close>; a challenge of 1 is
  signed and committed; then a challenge of \<open>2^53 + 4\<close> is presented.
\<close>

definition demoLargeOps :: "SessionOp list" where
  "demoLargeOps =
     [demoCreate 9007199254740996,
      OnKey 0 (SignForChallenge (demoChallenge 1) demoRequest (clockAll 100)),
      OnKey 0 (CommitPayment (demoKeyOf (lit ''s9'') 1)),
      OnKey 0 (SignForChallenge (demoChallenge 9007199254740996) demoRequest (clockAll 200))]"

text \<open>
  A 402 response whose header decodes to an envelope, a transport that answers the first
  request with a given response and the retry with 500, and codecs that read the header
  \<open>v1\<close> as an envelope with a challenge of this protocol, the header \<open>v0\<close> as one
  with a challenge of another version, anything else as undecodable, and a body as
  carrying the challenge.
\<close>

definition demoAccept :: "PaymentChallenge \<Rightarrow> X402PaymentRequiredAccept" where
  "demoAccept challenge =
     \<lparr> a_scheme = lit ''exact'', a_network = lit ''eip155:84532'', a_amount = lit ''150000'',
       a_asset = lit ''USDC'', a_payTo = lit ''ace:phase0:test'',
       a_maxTimeoutSeconds = None, a_extra = Some (Some challenge) \<rparr>"

definition demoRequired :: "jsstring \<Rightarrow> X402PaymentRequired" where
  "demoRequired version =
     \<lparr> x_x402Version = 2, x_error = lit ''payment_required'',
       x_accepts = Some [demoAccept ((demoChallenge 150000)\<lparr> c_version := version \<rparr>)] \<rparr>"

definition demoCodec :: Codec where
  "demoCodec =
     \<lparr> decodePaymentRequiredHeader =
         (\<lambda>s. if s = lit ''v1'' then Some (demoRequired ACE_PAYMENT_VERSION)
              else if s = lit ''v0'' then Some (demoRequired (lit ''ace-x402-v0''))
              else None),
       encodePaymentRequiredHeader = (\<lambda>required. lit ''v1''),
       decodePaymentHeader = (\<lambda>s. None),
       encodePaymentHeader = (\<lambda>payment. p_signature payment),
       parseJsonBody = (\<lambda>s. Some \<lparr> b_challenge = Some (demoChallenge 150000) \<rparr>),
       base64Json = (\<lambda>j. stringify demoHost j) \<rparr>"

definition demoResponse402 :: "jsstring \<Rightarrow> Response" where
  "demoResponse402 header =
     \<lparr> rs_status = 402,
       rs_headers = [lit ''payment-required'' \<mapsto> header,
                     lit ''content-type'' \<mapsto> lit ''application/json''],
       rs_body = lit ''{}'' \<rparr>"

definition demoResponse500 :: Response where
  "demoResponse500 = \<lparr> rs_status = 500, rs_headers = Map.empty, rs_body = lit ''upstream error'' \<rparr>"

definition demoFetch :: "Response \<Rightarrow> nat \<Rightarrow> FetchInput \<Rightarrow> RequestInit \<Rightarrow> error + Response" where
  "demoFetch firstResponse n input init = (if n = 0 then Inr firstResponse else Inr demoResponse500)"

definition demoInput :: FetchInput where
  "demoInput = InputString (lit ''/compute'')"

definition demoInit :: RequestInit where
  "demoInit = \<lparr> ri_method = Some (lit ''GET''), ri_headers = Map.empty, ri_body = None \<rparr>"

text \<open>
  An origin that asks for 0.25 USDC, a request that carries a payment header, and a
  payment that the origin accepts: its hashes, its idempotency key and the MAC of its
  challenge are the derived ones, and the signature library recovers the payer.
\<close>

definition demoConfig :: ServerConfig where
  "demoConfig =
     \<lparr> cfg_port = 8080, cfg_amountMicrousdc = 250000, cfg_challengeSecret = lit ''secret'',
       cfg_challengeTtlSeconds = 120, cfg_ledgerPath = lit ''payments.json'' \<rparr>"

definition demoEnv :: OriginEnv where
  "demoEnv =
     \<lparr> newURLWithBase = (\<lambda>url base. Some \<lparr> u_pathname = url, u_search = [], u_href = url,
                                             u_task = None \<rparr>),
       verifyMessage = (\<lambda>message signature. Some (lit ''0xABC'')),
       clockAt = (\<lambda>n. 100),
       uuidAt = (\<lambda>n. lit ''uuid'') \<rparr>"

definition demoOriginChallenge :: PaymentChallenge where
  "demoOriginChallenge =
     (demoChallenge 250000)
       \<lparr> c_mac := Some (createChallengeMac demoHost (lit ''secret'') (demoChallenge 250000)) \<rparr>"

definition demoOriginPayment :: SignedPayment where
  "demoOriginPayment =
     \<lparr> p_version = ACE_PAYMENT_VERSION, p_sessionId = lit ''s1'', p_payer = lit ''0xABC'',
       p_challengeId = lit ''challenge-1'', p_challenge = demoOriginChallenge,
       p_idempotencyKey =
         deriveIdempotencyKey demoHost (lit ''s1'') (lit ''0xABC'') (lit ''challenge-1'')
           demoRequestHash 250000,
       p_requestHash = demoRequestHash,
       p_challengeHash = deriveChallengeHash demoHost demoOriginChallenge,
       p_amountMicrousdc = 250000, p_currency = lit ''USDC'',
       p_sessionExpiresAt = lit ''9000'', p_issuedAt = lit ''100'',
       p_signature = lit ''0xsig'' \<rparr>"

definition demoOriginCodec :: Codec where
  "demoOriginCodec = demoCodec\<lparr> decodePaymentHeader := (\<lambda>s. Some demoOriginPayment) \<rparr>"

definition demoIncoming :: IncomingMessage where
  "demoIncoming =
     \<lparr> im_method = Some (lit ''GET''), im_url = Some (lit ''/compute''),
       im_headers = [lit ''payment-signature'' \<mapsto> Single (lit ''header'')] \<rparr>"

definition demoRecord :: "int \<Rightarrow> PaymentLogRecord" where
  "demoRecord amount =
     \<lparr> r_idempotencyKey = p_idempotencyKey demoOriginPayment, r_payer = lit ''0xabc'',
       r_amountMicrousdc = amount, r_requestHash = demoRequestHash,
       r_challengeId = lit ''challenge-1'', r_paidAt = lit ''50'',
       r_result = \<lparr> cr_computeId = lit ''compute-1'', cr_output = lit ''computed:demo:ok'' \<rparr> \<rparr>"

definition demoLedger :: "int \<Rightarrow> PaymentLedger" where
  "demoLedger amount = [p_idempotencyKey demoOriginPayment \<mapsto> demoRecord amount]"

section \<open>Content of a JSON value and order of comparison\<close>

text \<open>
  Two values have the same content when they are equal up to the order in which the
  properties of their objects were created. Arrays keep their order.
\<close>

inductive sameContent :: "'n json \<Rightarrow> 'n json \<Rightarrow> bool" where
  sameNull: "sameContent JNull JNull"
| sameBool: "sameContent (JBool b) (JBool b)"
| sameNum: "sameContent (JNum n) (JNum n)"
| sameStr: "sameContent (JStr s) (JStr s)"
| sameArr: "list_all2 sameContent xs ys \<Longrightarrow> sameContent (JArr xs) (JArr ys)"
| sameObj: "distinct (map fst a) \<Longrightarrow> distinct (map fst b) \<Longrightarrow> fst ` set a = fst ` set b \<Longrightarrow>
            (\<forall>k va vb. map_of a k = Some va \<longrightarrow> map_of b k = Some vb \<longrightarrow> sameContent va vb) \<Longrightarrow>
            sameContent (JObj a) (JObj b)"

text \<open>The keys of the objects of a value, at every depth.\<close>

function jsonKeys :: "'n json \<Rightarrow> jsstring list" where
  "jsonKeys (JArr items) = concat (map (\<lambda>item. jsonKeys item) items)"
| "jsonKeys (JObj kvs) = map fst kvs @ concat (map (\<lambda>kv. jsonKeys (snd kv)) kvs)"
| "jsonKeys JNull = []"
| "jsonKeys (JBool b) = []"
| "jsonKeys (JNum n) = []"
| "jsonKeys (JStr s) = []"
  by pat_completeness auto
termination
proof (relation "measure size", goal_cases)
  case 1
  show ?case by simp
next
  case (2 items item)
  then show ?case by (simp add: size_json_item)
next
  case (3 kvs kv)
  then have "(fst kv, snd kv) \<in> set kvs" by simp
  from size_json_entry [OF this] show ?case by simp
qed

text \<open>
  A comparison function is a consistent order on some keys when \<open>\<le> 0\<close> is total and
  transitive on them, as the language requires of \<^verbatim>\<open>localeCompare\<close>; it is a linear
  order on them when, moreover, it is 0 on no two different keys. (A conforming
  \<^verbatim>\<open>localeCompare\<close> is 0 on canonically equivalent strings, so it is a linear order
  on some sets of keys only.)
\<close>

definition consistentOn :: "(jsstring \<Rightarrow> jsstring \<Rightarrow> int) \<Rightarrow> jsstring list \<Rightarrow> bool" where
  "consistentOn cmp ks =
     ((\<forall>a\<in>set ks. \<forall>b\<in>set ks. cmp a b \<le> 0 \<or> cmp b a \<le> 0)
      \<and> (\<forall>a\<in>set ks. \<forall>b\<in>set ks. \<forall>c\<in>set ks. cmp a b \<le> 0 \<longrightarrow> cmp b c \<le> 0 \<longrightarrow> cmp a c \<le> 0))"

definition linearOn :: "(jsstring \<Rightarrow> jsstring \<Rightarrow> int) \<Rightarrow> jsstring list \<Rightarrow> bool" where
  "linearOn cmp ks =
     (consistentOn cmp ks
      \<and> (\<forall>a\<in>set ks. \<forall>b\<in>set ks. cmp a b \<le> 0 \<longrightarrow> cmp b a \<le> 0 \<longrightarrow> a = b))"

text \<open>
  The entries of an object in the order in which \<^verbatim>\<open>canonicalJson\<close> emits them: sorted
  by the comparison, assigned one after the other to a new object, then enumerated (array
  indices first).
\<close>

definition emittedEntries ::
  "(jsstring \<Rightarrow> jsstring \<Rightarrow> int) \<Rightarrow> (jsstring \<times> 'v) list \<Rightarrow> (jsstring \<times> 'v) list" where
  "emittedEntries cmp kvs =
     ownEntries (filter (\<lambda>kv. fst kv \<noteq> lit ''__proto__'')
       (arraySort (\<lambda>a b. cmp (fst a) (fst b)) (ownEntries kvs)))"

definition emittedKeys :: "'n json \<Rightarrow> jsstring list" where
  "emittedKeys v = (case v of JObj kvs \<Rightarrow> map fst (ownEntries kvs) | _ \<Rightarrow> [])"

text \<open>
  Two objects with the same content, created in different orders, an object whose keys
  are array indices, an object with an own property \<^verbatim>\<open>__proto__\<close>, as
  \<^verbatim>\<open>JSON.parse\<close> creates it, and a comparison that is 0 on the different keys \<open>x\<close>
  and \<open>y\<close> and compares code units otherwise.
\<close>

definition demoObjAB :: "int json" where
  "demoObjAB = JObj [(lit ''b'', JNum 2), (lit ''a'', JArr [JNum 1, JNull])]"

definition demoObjBA :: "int json" where
  "demoObjBA = JObj [(lit ''a'', JArr [JNum 1, JNull]), (lit ''b'', JNum 2)]"

definition demoIndexObj :: "(jsstring \<times> int json) list" where
  "demoIndexObj = [(lit ''10'', JNull), (lit ''9'', JNull)]"

definition demoProtoObj :: "int json" where
  "demoProtoObj = JObj [(lit ''__proto__'', JNum 1), (lit ''a'', JNum 2)]"

definition tieCompare :: "jsstring \<Rightarrow> jsstring \<Rightarrow> int" where
  "tieCompare a b =
     (if a \<in> {lit ''x'', lit ''y''} \<and> b \<in> {lit ''x'', lit ''y''} then 0 else codeUnitCompare a b)"

lemma lit_unit_inj: "inj (\<lambda>c::char. (of_nat (of_char c) :: 16 word))"
proof (rule injI)
  fix c d :: char
  assume "(of_nat (of_char c) :: 16 word) = of_nat (of_char d)"
  then have "unat (of_nat (of_char c) :: 16 word) = unat (of_nat (of_char d) :: 16 word)"
    by simp
  moreover have "(of_char c :: nat) < 256" "(of_char d :: nat) < 256"
    by (simp_all add: of_char_def)
  ultimately have "(of_char c :: nat) = of_char d"
    by (simp add: unat_of_nat)
  then show "c = d" by simp
qed

lemma lit_eq_iff [simp]: "lit a = lit b \<longleftrightarrow> a = b"
  unfolding lit_def by (rule inj_map_eq_map [OF lit_unit_inj])

lemma lit_Nil_iff [simp]: "lit a = [] \<longleftrightarrow> a = []"
  by (simp add: lit_def)

section \<open>Lemmas on objects and on the operations of the ledger\<close>

lemma mset_ownEntries: "mset (ownEntries kvs) = mset kvs"
  by (simp add: ownEntries_def)

lemma distinct_keys_ownEntries [simp]:
  "distinct (map fst (ownEntries kvs)) = distinct (map fst kvs)"
proof -
  have "mset (map fst (ownEntries kvs)) = mset (map fst kvs)"
    by (simp add: mset_ownEntries)
  then show ?thesis by (rule mset_eq_imp_distinct_iff)
qed

lemma map_of_ownEntries:
  "distinct (map fst kvs) \<Longrightarrow> map_of (ownEntries kvs) = map_of kvs"
  by (simp add: map_of_inject_set)

lemma keys_objSet [simp]: "fst ` set (objSet kvs k v) = insert k (fst ` set kvs)"
proof (induction kvs)
  case Nil
  show ?case by simp
next
  case (Cons a kvs)
  obtain k' v' where a: "a = (k', v')" by (cases a)
  show ?case using Cons.IH by (cases "k' = k") (simp_all add: a insert_commute)
qed

lemma objSet_fresh: "k \<notin> fst ` set kvs \<Longrightarrow> objSet kvs k v = kvs @ [(k, v)]"
  by (induction kvs) auto

lemma foldl_objSet_distinct:
  "distinct (map fst (acc @ es)) \<Longrightarrow>
   foldl (\<lambda>acc kv. objSet acc (fst kv) (snd kv)) acc es = acc @ es"
proof (induction es arbitrary: acc)
  case Nil
  then show ?case by simp
next
  case (Cons e es)
  have fresh: "fst e \<notin> fst ` set acc" using Cons.prems by auto
  have "distinct (map fst ((acc @ [e]) @ es))" using Cons.prems by simp
  from Cons.IH [OF this] show ?case
    by (simp add: objSet_fresh [OF fresh])
qed

lemma fromEntries_distinct: "distinct (map fst es) \<Longrightarrow> fromEntries es = es"
  using foldl_objSet_distinct [of "[]" es] by (simp add: fromEntries_def)

lemma keys_fromEntries_aux:
  "fst ` set (foldl (\<lambda>acc kv. objSet acc (fst kv) (snd kv)) acc es) = fst ` set acc \<union> fst ` set es"
  by (induction es arbitrary: acc) auto

lemma keys_fromEntries [simp]: "fst ` set (fromEntries es) = fst ` set es"
  by (simp add: fromEntries_def keys_fromEntries_aux)

lemma sum_list_ownEntries:
  fixes f :: "jsstring \<times> 'v \<Rightarrow> int"
  shows "sum_list (map f (ownEntries kvs)) = sum_list (map f kvs)"
proof -
  have "sum_mset (mset (map f (ownEntries kvs))) = sum_mset (mset (map f kvs))"
    by (simp add: mset_ownEntries)
  then show ?thesis by (simp only: sum_mset_sum_list)
qed

text \<open>
  Sums and differences of magnitude below \<open>2^53\<close> are exact; in a state with positive
  pending amounts whose exact sum is below \<open>2^53\<close>, the pending spend that
  \<^verbatim>\<open>getSnapshot\<close> folds is that sum.
\<close>

lemma ulp_small: "n < 2 ^ 53 \<Longrightarrow> ulp n = 1"
  by (subst ulp.simps) simp

lemma roundMagnitude_small: "n < 2 ^ 53 \<Longrightarrow> roundMagnitude n = n"
  by (simp add: roundMagnitude_def ulp_small)

lemma toNumber_exact: "\<bar>x\<bar> < 2 ^ 53 \<Longrightarrow> toNumber x = Num x"
proof -
  assume x: "\<bar>x\<bar> < 2 ^ 53"
  then have "nat \<bar>x\<bar> < nat (2 ^ 53)" by linarith
  then have n: "nat \<bar>x\<bar> < 2 ^ 53" by simp
  have "(2::nat) ^ 53 \<le> 2 ^ 1024" by (rule power_increasing) simp_all
  with n have "\<not> 2 ^ 1024 \<le> nat \<bar>x\<bar>" by linarith
  then show ?thesis by (simp add: toNumber_def Let_def roundMagnitude_small [OF n])
qed

lemma numAdd_exact: "\<bar>a + b\<bar> < 2 ^ 53 \<Longrightarrow> numAdd (Num a) (Num b) = Num (a + b)"
  by (simp add: toNumber_exact)

lemma numSub_exact: "\<bar>a - b\<bar> < 2 ^ 53 \<Longrightarrow> numSub (Num a) (Num b) = Num (a - b)"
  by (simp add: numSub_def toNumber_exact)

lemma foldl_numAdd_exact:
  fixes f :: "'a \<Rightarrow> int"
  shows "0 \<le> a \<Longrightarrow> list_all (\<lambda>x. 0 \<le> f x) xs \<Longrightarrow> a + sum_list (map f xs) < 2 ^ 53 \<Longrightarrow>
         foldl (\<lambda>sum x. numAdd sum (Num (f x))) (Num a) xs = Num (a + sum_list (map f xs))"
proof (induction xs arbitrary: a)
  case Nil
  then show ?case by simp
next
  case (Cons x xs)
  have fx: "0 \<le> f x" and rest: "list_all (\<lambda>x. 0 \<le> f x) xs" using Cons.prems(2) by simp_all
  have "0 \<le> sum_list (map f xs)"
    using rest by (intro sum_list_nonneg) (auto simp: list_all_iff)
  then have "\<bar>a + f x\<bar> < 2 ^ 53" using Cons.prems(1,3) fx by simp
  then have step: "toNumber (a + f x) = Num (a + f x)" by (rule toNumber_exact)
  have "foldl (\<lambda>sum x. numAdd sum (Num (f x))) (Num (a + f x)) xs
        = Num (a + f x + sum_list (map f xs))"
    by (rule Cons.IH) (use Cons.prems fx rest in simp_all)
  then show ?case by (simp add: step add.assoc)
qed

lemma pendingTotal_nonneg: "positiveAmounts st \<Longrightarrow> 0 \<le> pendingTotal st"
  unfolding pendingTotal_def positiveAmounts_def
  by (intro sum_list_nonneg) (auto simp: list_all_iff)

lemma pendingSpend_exact:
  assumes pos: "positiveAmounts st" and bound: "pendingTotal st < 2 ^ 53"
  shows "pendingSpend st = Num (pendingTotal st)"
proof -
  let ?f = "\<lambda>kv :: jsstring \<times> SignedPayment. p_amountMicrousdc (snd kv)"
  have total: "sum_list (map ?f (ownEntries (pendingAttempts st))) = pendingTotal st"
    by (simp only: sum_list_ownEntries pendingTotal_def)
  have "pendingSpend st
        = foldl (\<lambda>sum kv. numAdd sum (Num (?f kv))) (Num 0) (ownEntries (pendingAttempts st))"
    by (simp add: pendingSpend_def foldl_map)
  also have "\<dots> = Num (0 + sum_list (map ?f (ownEntries (pendingAttempts st))))"
  proof (rule foldl_numAdd_exact)
    show "list_all (\<lambda>kv. 0 \<le> ?f kv) (ownEntries (pendingAttempts st))"
      using pos by (auto simp: positiveAmounts_def list_all_iff)
    show "0 + sum_list (map ?f (ownEntries (pendingAttempts st))) < 2 ^ 53"
      unfolding total using bound by simp
  qed simp_all
  finally show ?thesis by (simp only: total) simp
qed

lemma pendingSpend_empty: "pendingAttempts st = [] \<Longrightarrow> pendingSpend st = Num 0"
  by (simp add: pendingSpend_def ownEntries_def)

lemma objGet_None_iff: "objGet kvs k = None \<longleftrightarrow> k \<notin> fst ` set kvs"
  by (simp add: objGet_def map_of_eq_None_iff)

lemma sum_list_filter_key:
  fixes f :: "jsstring \<times> 'v \<Rightarrow> int"
  shows "distinct (map fst xs) \<Longrightarrow> map_of xs k = Some v \<Longrightarrow>
    sum_list (map f (filter (\<lambda>kv. fst kv \<noteq> k) xs)) = sum_list (map f xs) - f (k, v)"
proof (induction xs)
  case Nil
  then show ?case by simp
next
  case (Cons a xs)
  obtain k' v' where a: "a = (k', v')" by (cases a)
  show ?case
  proof (cases "k' = k")
    case True
    then have "k \<notin> fst ` set xs" using Cons.prems(1) a by simp
    then have "filter (\<lambda>kv. fst kv \<noteq> k) xs = xs"
      by (auto simp: filter_id_conv)
    then show ?thesis using Cons.prems(2) a True by simp
  next
    case False
    then show ?thesis using Cons a by simp
  qed
qed

lemma filter_absent_key:
  "k \<notin> fst ` set xs \<Longrightarrow> filter (\<lambda>kv. fst kv \<noteq> k) xs = xs"
  by (auto simp: filter_id_conv)

lemma signForChallenge_cases:
  assumes "signForChallenge h sk c rq clk = (r, sk')"
  shows "sk' = sk
       \<or> (r = Inl (Thrown (lit ''signMessage''))
            \<and> sk_state sk' = sk_state sk \<and> sk_store sk' = sk_store sk
            \<and> sk_wallet sk' = sk_wallet sk)
       \<or> (\<not> isl r
            \<and> getProperty (pendingAttempts (sk_state sk)) (p_idempotencyKey (projr r)) = Undefined
            \<and> p_amountMicrousdc (projr r) = c_amountMicrousdc c
            \<and> \<not> numGreater (Num (c_amountMicrousdc c))
                 (snap_availableSpendMicrousdc (getSnapshot (sk_state sk)))
            \<and> sk_state sk' = (sk_state sk)\<lparr> pendingAttempts :=
                   objSet (fromEntries (ownEntries (pendingAttempts (sk_state sk))))
                     (p_idempotencyKey (projr r)) (projr r) \<rparr>
            \<and> sk_store sk' = save (sk_store sk) (sessionId (sk_state sk)) (sk_state sk')
            \<and> sk_wallet sk' = sk_wallet sk)"
  using assms
  unfolding signForChallenge_def Let_def
  by (auto split: sum.splits if_splits property.splits option.splits
           simp: UnsignedPayment.extend_def persist_def)

lemma getProperty_Undefined_keys:
  "getProperty kvs k = Undefined \<Longrightarrow> k \<notin> fst ` set kvs"
  by (auto simp: getProperty_def objGet_def map_of_eq_None_iff split: option.splits if_splits)

lemma getProperty_Inherited_keys:
  "getProperty kvs k = Inherited \<Longrightarrow> k \<notin> fst ` set kvs"
  by (auto simp: getProperty_def objGet_def map_of_eq_None_iff split: option.splits if_splits)

lemma getProperty_Own:
  "getProperty kvs k = Own v \<longleftrightarrow> map_of kvs k = Some v"
  by (auto simp: getProperty_def objGet_def split: option.splits)

lemma sign_pending:
  assumes "wfState st" and "getProperty (pendingAttempts st) k = Undefined"
  shows "objSet (fromEntries (ownEntries (pendingAttempts st))) k sp
         = ownEntries (pendingAttempts st) @ [(k, sp)]"
proof -
  have "fromEntries (ownEntries (pendingAttempts st)) = ownEntries (pendingAttempts st)"
    using assms(1) by (simp add: fromEntries_distinct wfState_def)
  moreover have "k \<notin> fst ` set (ownEntries (pendingAttempts st))"
    using getProperty_Undefined_keys [OF assms(2)] by simp
  ultimately show ?thesis by (simp add: objSet_fresh)
qed

lemma removed_pending:
  assumes "wfState st"
  shows "fromEntries (filter (\<lambda>kv. fst kv \<noteq> k) (ownEntries (pendingAttempts st)))
         = filter (\<lambda>kv. fst kv \<noteq> k) (ownEntries (pendingAttempts st))"
  using assms by (simp add: fromEntries_distinct wfState_def distinct_map_filter)

lemma safeState_facts:
  assumes "safeState st"
  obtains c where "cumulativeSpendMicrousdc st = Num c" "0 \<le> c"
    "c + pendingTotal st \<le> spendLimitMicrousdc st" "spendLimitMicrousdc st < 2 ^ 53"
    "0 \<le> pendingTotal st" "wfState st" "positiveAmounts st"
proof (cases "cumulativeSpendMicrousdc st")
  case (Num c)
  have "0 \<le> c" "c + pendingTotal st \<le> spendLimitMicrousdc st" "spendLimitMicrousdc st < 2 ^ 53"
    "wfState st" "positiveAmounts st"
    using assms Num by (simp_all add: safeState_def exactRange_def spendSafe_def maxSafeInteger_def)
  then show ?thesis using that [OF Num] pendingTotal_nonneg by simp
qed (use assms in \<open>simp_all add: safeState_def spendSafe_def\<close>)

lemma available_exact:
  assumes "safeState st"
  shows "snap_availableSpendMicrousdc (getSnapshot st)
         = Num (spendLimitMicrousdc st - (case cumulativeSpendMicrousdc st of Num c \<Rightarrow> c | _ \<Rightarrow> 0)
                - pendingTotal st)"
proof -
  from assms obtain c where f: "cumulativeSpendMicrousdc st = Num c" "0 \<le> c"
    "c + pendingTotal st \<le> spendLimitMicrousdc st" "spendLimitMicrousdc st < 2 ^ 53"
    "0 \<le> pendingTotal st" "wfState st" "positiveAmounts st"
    by (rule safeState_facts)
  have p: "pendingSpend st = Num (pendingTotal st)"
    by (rule pendingSpend_exact) (use f in simp_all)
  have a: "numSub (Num (spendLimitMicrousdc st)) (Num c) = Num (spendLimitMicrousdc st - c)"
    by (rule numSub_exact) (use f in simp)
  have b: "numSub (Num (spendLimitMicrousdc st - c)) (Num (pendingTotal st))
           = Num (spendLimitMicrousdc st - c - pendingTotal st)"
    by (rule numSub_exact) (use f in simp)
  show ?thesis by (simp add: getSnapshot_def Let_def f(1) p a b)
qed

lemma safeState_sign:
  assumes safe: "safeState (sk_state sk)" and pos: "0 < c_amountMicrousdc c"
    and run: "signForChallenge h sk c rq clk = (r, sk')"
  shows "safeState (sk_state sk')"
proof -
  let ?st = "sk_state sk"
  from signForChallenge_cases [OF run]
  consider "sk_state sk' = ?st"
    | "getProperty (pendingAttempts ?st) (p_idempotencyKey (projr r)) = Undefined"
        "p_amountMicrousdc (projr r) = c_amountMicrousdc c"
        "\<not> numGreater (Num (c_amountMicrousdc c))
             (snap_availableSpendMicrousdc (getSnapshot ?st))"
        "sk_state sk' = ?st\<lparr> pendingAttempts :=
            objSet (fromEntries (ownEntries (pendingAttempts ?st)))
              (p_idempotencyKey (projr r)) (projr r) \<rparr>"
    by blast
  then show ?thesis
  proof cases
    case 1
    then show ?thesis using safe by simp
  next
    case 2
    define k where "k = p_idempotencyKey (projr r)"
    define sp where "sp = projr r"
    note 2 = 2 [folded k_def sp_def]
    from safe obtain c0 where f: "cumulativeSpendMicrousdc ?st = Num c0" "0 \<le> c0"
      "c0 + pendingTotal ?st \<le> spendLimitMicrousdc ?st" "spendLimitMicrousdc ?st < 2 ^ 53"
      "0 \<le> pendingTotal ?st" "wfState ?st" "positiveAmounts ?st"
      by (rule safeState_facts)
    have pend: "pendingAttempts (sk_state sk') = ownEntries (pendingAttempts ?st) @ [(k, sp)]"
      using 2(4) sign_pending [OF f(6) 2(1)] by simp
    have kfresh: "k \<notin> fst ` set (pendingAttempts ?st)"
      using getProperty_Undefined_keys [OF 2(1)] .
    have "wfState (sk_state sk')"
      using f(6) kfresh by (simp add: wfState_def pend)
    moreover have "positiveAmounts (sk_state sk')"
      using f(7) pos 2(2) by (simp add: positiveAmounts_def pend list_all_iff)
    moreover have "pendingTotal (sk_state sk') = pendingTotal ?st + c_amountMicrousdc c"
      by (simp add: pendingTotal_def pend sum_list_ownEntries 2(2))
    moreover have "c_amountMicrousdc c \<le> spendLimitMicrousdc ?st - c0 - pendingTotal ?st"
      using 2(3) by (simp add: available_exact [OF safe] f(1))
    ultimately show ?thesis
      using f 2(4) by (simp add: safeState_def spendSafe_def exactRange_def maxSafeInteger_def)
  qed
qed

lemma commitPayment_Undefined:
  "getProperty (pendingAttempts (sk_state sk)) k = Undefined \<Longrightarrow> commitPayment sk k = sk"
  by (simp add: commitPayment_def)

lemma commitPayment_state:
  "getProperty (pendingAttempts (sk_state sk)) k \<noteq> Undefined \<Longrightarrow>
   sk_state (commitPayment sk k) = (sk_state sk)
     \<lparr> cumulativeSpendMicrousdc :=
         numAdd (cumulativeSpendMicrousdc (sk_state sk))
           (attemptAmount (getProperty (pendingAttempts (sk_state sk)) k)),
       pendingAttempts :=
         fromEntries (filter (\<lambda>kv. fst kv \<noteq> k) (ownEntries (pendingAttempts (sk_state sk)))) \<rparr>"
  by (simp add: commitPayment_def persist_def Let_def)

lemma commitPayment_store:
  "getProperty (pendingAttempts (sk_state sk)) k \<noteq> Undefined \<Longrightarrow>
   sk_store (commitPayment sk k)
   = save (sk_store sk) (sessionId (sk_state sk)) (sk_state (commitPayment sk k))"
  by (simp add: commitPayment_def persist_def Let_def)

lemma releasePayment_Undefined:
  "getProperty (pendingAttempts (sk_state sk)) k = Undefined \<Longrightarrow> releasePayment sk k = sk"
  by (simp add: releasePayment_def)

lemma releasePayment_state:
  "getProperty (pendingAttempts (sk_state sk)) k \<noteq> Undefined \<Longrightarrow>
   sk_state (releasePayment sk k) = (sk_state sk)
     \<lparr> pendingAttempts :=
         fromEntries (filter (\<lambda>kv. fst kv \<noteq> k) (ownEntries (pendingAttempts (sk_state sk)))) \<rparr>"
  by (simp add: releasePayment_def persist_def Let_def)

lemma releasePayment_store:
  "getProperty (pendingAttempts (sk_state sk)) k \<noteq> Undefined \<Longrightarrow>
   sk_store (releasePayment sk k)
   = save (sk_store sk) (sessionId (sk_state sk)) (sk_state (releasePayment sk k))"
  by (simp add: releasePayment_def persist_def Let_def)

lemma pendingTotal_removed_own:
  assumes wf: "wfState st" and own: "map_of (pendingAttempts st) k = Some a"
    and pend: "pendingAttempts st' = fromEntries (filter (\<lambda>kv. fst kv \<noteq> k) (ownEntries (pendingAttempts st)))"
  shows "pendingTotal st' = pendingTotal st - p_amountMicrousdc a"
proof -
  have d: "distinct (map fst (ownEntries (pendingAttempts st)))"
    using wf by (simp add: wfState_def)
  have m: "map_of (ownEntries (pendingAttempts st)) k = Some a"
    using wf own by (simp add: map_of_ownEntries wfState_def)
  have "pendingTotal st'
        = sum_list (map (\<lambda>kv. p_amountMicrousdc (snd kv))
            (filter (\<lambda>kv. fst kv \<noteq> k) (ownEntries (pendingAttempts st))))"
    by (simp add: pendingTotal_def pend removed_pending [OF wf])
  also have "\<dots> = sum_list (map (\<lambda>kv. p_amountMicrousdc (snd kv)) (ownEntries (pendingAttempts st)))
                   - p_amountMicrousdc a"
    using sum_list_filter_key [OF d m, of "\<lambda>kv. p_amountMicrousdc (snd kv)"] by simp
  finally show ?thesis by (simp add: pendingTotal_def sum_list_ownEntries)
qed

lemma pendingTotal_removed_absent:
  assumes wf: "wfState st" and absent: "k \<notin> fst ` set (pendingAttempts st)"
    and pend: "pendingAttempts st' = fromEntries (filter (\<lambda>kv. fst kv \<noteq> k) (ownEntries (pendingAttempts st)))"
  shows "pendingTotal st' = pendingTotal st"
proof -
  have "pendingAttempts st' = filter (\<lambda>kv. fst kv \<noteq> k) (ownEntries (pendingAttempts st))"
    by (simp add: pend removed_pending [OF wf])
  also have "\<dots> = ownEntries (pendingAttempts st)"
    using absent by (simp add: filter_absent_key)
  finally show ?thesis
    by (simp add: pendingTotal_def sum_list_ownEntries)
qed

lemma removed_wf_positive:
  assumes "wfState st" "positiveAmounts st"
    and pend: "pendingAttempts st' = fromEntries (filter (\<lambda>kv. fst kv \<noteq> k) (ownEntries (pendingAttempts st)))"
  shows "wfState st' \<and> positiveAmounts st'"
  using assms
  by (auto simp: removed_pending wfState_def positiveAmounts_def list_all_iff distinct_map_filter)

lemma positive_amount_own:
  "positiveAmounts st \<Longrightarrow> map_of (pendingAttempts st) k = Some a \<Longrightarrow> 0 < p_amountMicrousdc a"
  by (auto simp: positiveAmounts_def list_all_iff dest!: map_of_SomeD)

lemma safeState_commit:
  assumes safe: "safeState (sk_state sk)"
    and key: "getProperty (pendingAttempts (sk_state sk)) k \<noteq> Inherited"
  shows "safeState (sk_state (commitPayment sk k))"
proof (cases "getProperty (pendingAttempts (sk_state sk)) k")
  case (Own a)
  let ?st = "sk_state sk" and ?st' = "sk_state (commitPayment sk k)"
  from safe obtain c0 where f: "cumulativeSpendMicrousdc ?st = Num c0" "0 \<le> c0"
    "c0 + pendingTotal ?st \<le> spendLimitMicrousdc ?st" "spendLimitMicrousdc ?st < 2 ^ 53"
    "0 \<le> pendingTotal ?st" "wfState ?st" "positiveAmounts ?st"
    by (rule safeState_facts)
  have own: "map_of (pendingAttempts ?st) k = Some a" using Own by (simp add: getProperty_Own)
  have apos: "0 < p_amountMicrousdc a" by (rule positive_amount_own [OF f(7) own])
  have tot: "pendingTotal ?st'
             = pendingTotal ?st - p_amountMicrousdc a"
    by (rule pendingTotal_removed_own [OF f(6) own]) (use Own in \<open>simp add: commitPayment_state\<close>)
  have wp: "wfState ?st' \<and> positiveAmounts ?st'"
    by (rule removed_wf_positive [OF f(6,7)]) (use Own in \<open>simp add: commitPayment_state\<close>)
  have "0 \<le> pendingTotal ?st'" using wp by (simp add: pendingTotal_nonneg)
  then have le: "p_amountMicrousdc a \<le> pendingTotal ?st" using tot by simp
  have "numAdd (Num c0) (Num (p_amountMicrousdc a)) = Num (c0 + p_amountMicrousdc a)"
    by (rule numAdd_exact) (use f le apos in simp)
  then have st': "?st' = ?st\<lparr> cumulativeSpendMicrousdc := Num (c0 + p_amountMicrousdc a),
       pendingAttempts := fromEntries (filter (\<lambda>kv. fst kv \<noteq> k) (ownEntries (pendingAttempts ?st))) \<rparr>"
    using Own f(1) by (simp add: commitPayment_state)
  show ?thesis
    using wp tot f apos
    by (simp add: safeState_def spendSafe_def exactRange_def maxSafeInteger_def st')
next
  case Inherited
  then show ?thesis using key by simp
next
  case Undefined
  then show ?thesis using safe by (simp add: commitPayment_Undefined)
qed

lemma safeState_release:
  assumes safe: "safeState (sk_state sk)"
  shows "safeState (sk_state (releasePayment sk k))"
proof (cases "getProperty (pendingAttempts (sk_state sk)) k = Undefined")
  case True
  then show ?thesis using safe by (simp add: releasePayment_Undefined)
next
  case False
  let ?st = "sk_state sk" and ?st' = "sk_state (releasePayment sk k)"
  from safe obtain c0 where f: "cumulativeSpendMicrousdc ?st = Num c0" "0 \<le> c0"
    "c0 + pendingTotal ?st \<le> spendLimitMicrousdc ?st" "spendLimitMicrousdc ?st < 2 ^ 53"
    "0 \<le> pendingTotal ?st" "wfState ?st" "positiveAmounts ?st"
    by (rule safeState_facts)
  have st': "?st' = ?st\<lparr> pendingAttempts :=
       fromEntries (filter (\<lambda>kv. fst kv \<noteq> k) (ownEntries (pendingAttempts ?st))) \<rparr>"
    using False by (simp add: releasePayment_state)
  have wp: "wfState ?st' \<and> positiveAmounts ?st'"
    by (rule removed_wf_positive [OF f(6,7)]) (simp add: st')
  have "pendingTotal ?st' \<le> pendingTotal ?st"
  proof (cases "getProperty (pendingAttempts ?st) k")
    case (Own a)
    then have own: "map_of (pendingAttempts ?st) k = Some a" by (simp add: getProperty_Own)
    have "pendingTotal ?st' = pendingTotal ?st - p_amountMicrousdc a"
      by (rule pendingTotal_removed_own [OF f(6) own]) (simp add: st')
    then show ?thesis using positive_amount_own [OF f(7) own] by simp
  next
    case Inherited
    have "pendingTotal ?st' = pendingTotal ?st"
      by (rule pendingTotal_removed_absent [OF f(6) getProperty_Inherited_keys [OF Inherited]])
         (simp add: st')
    then show ?thesis by simp
  next
    case Undefined
    then show ?thesis using False by simp
  qed
  then show ?thesis
    using wp f by (simp add: safeState_def spendSafe_def exactRange_def maxSafeInteger_def st')
qed

lemma storeSafe_save: "storeSafe states \<Longrightarrow> safeState st \<Longrightarrow> storeSafe (save states sid st)"
  by (simp add: storeSafe_def save_def)

lemma getProperty_not_Inherited:
  "k \<notin> set objectPrototypeKeys \<Longrightarrow> getProperty kvs k \<noteq> Inherited"
  by (simp add: getProperty_def split: option.splits)

lemma applyOp_safe:
  assumes "safeState (sk_state sk)" "storeSafe (sk_store sk)" "ledgerOpOk op"
  shows "safeState (sk_state (applyOp h sk op)) \<and> storeSafe (sk_store (applyOp h sk op))"
proof (cases op)
  case (SignForChallenge c rq clk)
  obtain r sk' where run: "signForChallenge h sk c rq clk = (r, sk')" by (cases "signForChallenge h sk c rq clk")
  have pos: "0 < c_amountMicrousdc c" using assms(3) SignForChallenge by simp
  have safe': "safeState (sk_state sk')" by (rule safeState_sign [OF assms(1) pos run])
  have "storeSafe (sk_store sk')"
    using signForChallenge_cases [OF run] assms(2) safe'
    by (auto simp: storeSafe_save)
  then show ?thesis using safe' run SignForChallenge by simp
next
  case (CommitPayment k)
  have key: "getProperty (pendingAttempts (sk_state sk)) k \<noteq> Inherited"
    using assms(3) CommitPayment by (simp add: getProperty_not_Inherited)
  have safe': "safeState (sk_state (commitPayment sk k))" by (rule safeState_commit [OF assms(1) key])
  have "storeSafe (sk_store (commitPayment sk k))"
  proof (cases "getProperty (pendingAttempts (sk_state sk)) k = Undefined")
    case True
    then show ?thesis using assms(2) by (simp add: commitPayment_Undefined)
  next
    case False
    then show ?thesis using assms(2) safe' by (simp add: commitPayment_store storeSafe_save)
  qed
  then show ?thesis using safe' CommitPayment by simp
next
  case (ReleasePayment k)
  have safe': "safeState (sk_state (releasePayment sk k))" by (rule safeState_release [OF assms(1)])
  have "storeSafe (sk_store (releasePayment sk k))"
  proof (cases "getProperty (pendingAttempts (sk_state sk)) k = Undefined")
    case True
    then show ?thesis using assms(2) by (simp add: releasePayment_Undefined)
  next
    case False
    then show ?thesis using assms(2) safe' by (simp add: releasePayment_store storeSafe_save)
  qed
  then show ?thesis using safe' ReleasePayment by simp
qed

lemma create_cases:
  assumes "create h now uuid wallet store input = Inr sk"
  shows "((\<exists>sid. store sid = Some (sk_state sk)) \<and> sk_store sk = store)
       \<or> (cumulativeSpendMicrousdc (sk_state sk) = Num 0
          \<and> pendingAttempts (sk_state sk) = []
          \<and> spendLimitMicrousdc (sk_state sk) = ci_spendLimitMicrousdc input
          \<and> sk_store sk = save store (sessionId (sk_state sk)) (sk_state sk))"
  using assms
  unfolding create_def Let_def
  by (auto split: option.splits if_splits sum.splits simp: load_def)

lemma create_safe:
  assumes run: "create h now uuid wallet store input = Inr sk" and st: "storeSafe store"
    and lim: "0 \<le> ci_spendLimitMicrousdc input" "ci_spendLimitMicrousdc input \<le> maxSafeInteger"
  shows "safeState (sk_state sk) \<and> storeSafe (sk_store sk)"
  using create_cases [OF run]
proof (elim disjE conjE exE)
  fix sid
  assume "store sid = Some (sk_state sk)" "sk_store sk = store"
  then show ?thesis using st by (auto simp: storeSafe_def)
next
  assume a: "cumulativeSpendMicrousdc (sk_state sk) = Num 0"
    "pendingAttempts (sk_state sk) = []"
    "spendLimitMicrousdc (sk_state sk) = ci_spendLimitMicrousdc input"
    "sk_store sk = save store (sessionId (sk_state sk)) (sk_state sk)"
  have "safeState (sk_state sk)"
    using a(1,2,3) lim
    by (simp add: safeState_def wfState_def positiveAmounts_def spendSafe_def exactRange_def
          pendingTotal_def)
  then show ?thesis using a(4) st by (simp add: storeSafe_save)
qed

lemma restore_safe:
  assumes run: "restore h wallet store sid = Inr sk" and st: "storeSafe store"
  shows "safeState (sk_state sk) \<and> storeSafe (sk_store sk)"
proof -
  have "store sid = Some (sk_state sk) \<and> sk_store sk = store"
    using run unfolding restore_def Let_def
    by (auto split: option.splits if_splits simp: load_def)
  then show ?thesis using st by (auto simp: storeSafe_def)
qed

lemma applySessionOp_safe:
  assumes "sysSafe sys" "sessionOpOk op"
  shows "sysSafe (applySessionOp h sys op)"
proof (cases op)
  case (Create now uuid wallet input)
  show ?thesis
  proof (cases "create h now uuid wallet (sys_store sys) input")
    case (Inl e)
    then show ?thesis using assms(1) Create by simp
  next
    case (Inr sk)
    have "0 \<le> ci_spendLimitMicrousdc input" "ci_spendLimitMicrousdc input \<le> maxSafeInteger"
      using assms(2) Create by simp_all
    from create_safe [OF Inr _ this] assms(1)
    show ?thesis using Create Inr by (simp add: sysSafe_def)
  qed
next
  case (Restore wallet sid)
  show ?thesis
  proof (cases "restore h wallet (sys_store sys) sid")
    case (Inl e)
    then show ?thesis using assms(1) Restore by simp
  next
    case (Inr sk)
    from restore_safe [OF Inr] assms(1)
    show ?thesis using Restore Inr by (simp add: sysSafe_def)
  qed
next
  case (OnKey i lop)
  show ?thesis
  proof (cases "i < length (sys_keys sys)")
    case False
    then show ?thesis using assms(1) OnKey by simp
  next
    case True
    let ?sk = "(sys_keys sys ! i)\<lparr> sk_store := sys_store sys \<rparr>"
    have a: "safeState (sk_state ?sk)"
      using assms(1) True by (simp add: sysSafe_def list_all_length)
    have b: "storeSafe (sk_store ?sk)" using assms(1) by (simp add: sysSafe_def)
    have c: "ledgerOpOk lop" using assms(2) OnKey by simp
    from applyOp_safe [OF a b c, of h]
    have "safeState (sk_state (applyOp h ?sk lop))" "storeSafe (sk_store (applyOp h ?sk lop))"
      by simp_all
    moreover have "list_all (\<lambda>sk. safeState (sk_state sk)) ((sys_keys sys)[i := applyOp h ?sk lop])"
      using assms(1) calculation(1)
      by (auto simp: sysSafe_def list_all_iff dest!: subsetD [OF set_update_subset_insert])
    ultimately show ?thesis using OnKey True by (simp add: sysSafe_def Let_def)
  qed
qed

lemma runSession_safe:
  "sysSafe sys \<Longrightarrow> list_all sessionOpOk ops \<Longrightarrow> sysSafe (runSession h sys ops)"
  unfolding runSession_def
  by (induction ops arbitrary: sys) (simp_all add: applySessionOp_safe)

section \<open>The claims on the session ledger\<close>

text \<open>
  \<^bold>\<open>Claim C2\<close> (spend safety), as amended. Start from a store and keys whose states
  have distinct pending keys, positive pending amounts, a limit of at most
  \<^verbatim>\<open>Number.MAX_SAFE_INTEGER\<close>, a cumulative spend that is not negative, and satisfy
  \<open>cumulativeSpendMicrousdc + sum of the pending amounts \<le> spendLimitMicrousdc\<close>; an
  empty store with no key is such a start. After any sequence of \<^verbatim>\<open>create\<close>,
  \<^verbatim>\<open>restore\<close>, \<^verbatim>\<open>signForChallenge\<close>, \<^verbatim>\<open>commitPayment\<close> and
  \<^verbatim>\<open>releasePayment\<close> calls, on any of the keys that exist then, in which every
  session is created with a spend limit between 0 and \<^verbatim>\<open>Number.MAX_SAFE_INTEGER\<close>,
  every challenge asks for a positive amount and no committed key is the name of a
  property of \<^verbatim>\<open>Object.prototype\<close>, every key and every stored state satisfies the
  inequality, in exact arithmetic. The theorem holds for every sequence, hence at every
  state on the way.
\<close>

theorem spend_safety:
  assumes "sysSafe sys" and "list_all sessionOpOk ops"
  shows "list_all (\<lambda>sk. spendSafe (sk_state sk)) (sys_keys (runSession h sys ops))
       \<and> (\<forall>sid st. sys_store (runSession h sys ops) sid = Some st \<longrightarrow> spendSafe st)"
  using runSession_safe [OF assms, of h]
  by (auto simp: sysSafe_def safeState_def storeSafe_def list_all_iff)

lemma aceid_not_inherited: "lit ''aceid_'' @ s \<notin> set objectPrototypeKeys"
  by (simp add: objectPrototypeKeys_def lit_def)

lemma deriveIdempotencyKey_not_inherited:
  "deriveIdempotencyKey h sid pyr cid rh amount \<notin> set objectPrototypeKeys"
  by (simp add: deriveIdempotencyKey_def Let_def aceid_not_inherited)

lemma deriveRequestHash_resource:
  "deriveResource h url = Inr resource \<Longrightarrow>
   \<exists>rh. deriveRequestHash h \<lparr> rq_method = m, rq_url = url, rq_body = b \<rparr> = Inr rh"
  by (simp add: deriveRequestHash_def Let_def)


lemma demo_reached_session [simp]: "reached demoHost t (lit ''9000'') = (9000 \<le> t)"
  by (simp add: reached_def demoHost_def lit_def isDigit_def decimalValue_def)

lemma demo_reached_challenge [simp]: "reached demoHost t (lit ''500'') = (500 \<le> t)"
  by (simp add: reached_def demoHost_def lit_def isDigit_def decimalValue_def)

lemma demo_upper_get [simp]: "toUpperCase demoHost (lit ''get'') = lit ''GET''"
  by (simp add: demoHost_def lit_def asciiUpper_def)

lemma demo_resource [simp]: "deriveResource demoHost url = Inr url"
  by (simp add: deriveResource_def demoHost_def)


lemma getProperty_empty_derived [simp]:
  "getProperty [] (deriveIdempotencyKey h sid pyr cid rh amount) = Undefined"
  using deriveIdempotencyKey_not_inherited [of h sid pyr cid rh amount]
  by (simp add: getProperty_def objGet_def)


lemma map_of_objSet_same [simp]: "map_of (objSet kvs k v) k = Some v"
  by (induction kvs) auto

lemma getProperty_objSet_same [simp]: "getProperty (objSet kvs k v) k = Own v"
  by (simp add: getProperty_def objGet_def)

lemma count_key_distinct:
  "distinct (map fst xs) \<Longrightarrow> map_of xs k = Some v \<Longrightarrow>
   length (filter (\<lambda>kv. fst kv = k) xs) = 1"
proof (induction xs)
  case Nil
  then show ?case by simp
next
  case (Cons a xs)
  obtain k' v' where a: "a = (k', v')" by (cases a)
  show ?case
  proof (cases "k' = k")
    case True
    then have "k \<notin> fst ` set xs" using Cons.prems(1) a by simp
    then have "filter (\<lambda>kv. fst kv = k) xs = []"
      by (auto simp: filter_empty_conv)
    then show ?thesis using a True by simp
  next
    case False
    then show ?thesis using Cons a by simp
  qed
qed

lemma signForChallenge_success:
  assumes first: "signForChallenge h sk c rq clk = (Inr p, sk1)"
  shows "\<not> reached h (t_ensureActive clk) (expiresAt (sk_state sk))
       \<and> c_version c = ACE_PAYMENT_VERSION \<and> c_currency c = lit ''USDC''
       \<and> \<not> reached h (t_challengeCheck clk) (c_expiresAt c)
       \<and> deriveResource h (rq_url rq) = Inr (c_resource c)
       \<and> c_method c = toUpperCase h (rq_method rq)
       \<and> \<not> isl (deriveRequestHash h \<lparr> rq_method = toUpperCase h (rq_method rq),
                    rq_url = rq_url rq, rq_body = rq_body rq \<rparr>)
       \<and> sessionId (sk_state sk1) = sessionId (sk_state sk)
       \<and> payer (sk_state sk1) = payer (sk_state sk)
       \<and> expiresAt (sk_state sk1) = expiresAt (sk_state sk)
       \<and> getProperty (pendingAttempts (sk_state sk1))
            (deriveIdempotencyKey h (sessionId (sk_state sk)) (payer (sk_state sk))
               (c_challengeId c)
               (projr (deriveRequestHash h \<lparr> rq_method = toUpperCase h (rq_method rq),
                    rq_url = rq_url rq, rq_body = rq_body rq \<rparr>))
               (c_amountMicrousdc c)) = Own p"
  using first
  unfolding signForChallenge_def Let_def ensureActive_def
  by (auto split: sum.splits option.splits property.splits if_splits simp: persist_def)

lemma signForChallenge_cached:
  assumes "\<not> reached h (t_ensureActive clk) (expiresAt (sk_state sk))"
    "c_version c = ACE_PAYMENT_VERSION" "c_currency c = lit ''USDC''"
    "\<not> reached h (t_challengeCheck clk) (c_expiresAt c)"
    "deriveResource h (rq_url rq) = Inr (c_resource c)"
    "c_method c = toUpperCase h (rq_method rq)"
    "\<not> isl (deriveRequestHash h \<lparr> rq_method = toUpperCase h (rq_method rq),
                    rq_url = rq_url rq, rq_body = rq_body rq \<rparr>)"
    "getProperty (pendingAttempts (sk_state sk))
            (deriveIdempotencyKey h (sessionId (sk_state sk)) (payer (sk_state sk))
               (c_challengeId c)
               (projr (deriveRequestHash h \<lparr> rq_method = toUpperCase h (rq_method rq),
                    rq_url = rq_url rq, rq_body = rq_body rq \<rparr>))
               (c_amountMicrousdc c)) = Own p"
  shows "signForChallenge h sk c rq clk = (Inr p, sk)"
  using assms
  unfolding signForChallenge_def Let_def ensureActive_def
  by (auto split: sum.splits)

lemma wfState_sign:
  assumes wf: "wfState (sk_state sk)" and run: "signForChallenge h sk c rq clk = (r, sk')"
  shows "wfState (sk_state sk')"
proof -
  let ?st = "sk_state sk"
  from signForChallenge_cases [OF run]
  consider "sk_state sk' = ?st"
    | "getProperty (pendingAttempts ?st) (p_idempotencyKey (projr r)) = Undefined"
        "sk_state sk' = ?st\<lparr> pendingAttempts :=
            objSet (fromEntries (ownEntries (pendingAttempts ?st)))
              (p_idempotencyKey (projr r)) (projr r) \<rparr>"
    by blast
  then show ?thesis
  proof cases
    case 1
    then show ?thesis using wf by simp
  next
    case 2
    have "pendingAttempts (sk_state sk')
          = ownEntries (pendingAttempts ?st) @ [(p_idempotencyKey (projr r), projr r)]"
      using 2(2) sign_pending [OF wf 2(1)] by simp
    then show ?thesis
      using wf getProperty_Undefined_keys [OF 2(1)] by (simp add: wfState_def)
  qed
qed

text \<open>
  \<^bold>\<open>Claim C3\<close> (signing is idempotent), as amended. If \<^verbatim>\<open>signForChallenge\<close>
  returned a payment, a second call with the same challenge and the same request
  context, at a time when neither the session nor the challenge has expired, returns the
  same payment and leaves the key as it is (state, store and the list of the messages
  handed to the wallet); the pending map holds this payment under the derived key, in
  exactly one entry.
\<close>

theorem signForChallenge_idempotent:
  assumes first: "signForChallenge h sk c rq clk1 = (Inr p, sk1)"
    and wf: "wfState (sk_state sk)"
    and active: "\<not> reached h (t_ensureActive clk2) (expiresAt (sk_state sk1))"
    and unexpired: "\<not> reached h (t_challengeCheck clk2) (c_expiresAt c)"
  shows "signForChallenge h sk1 c rq clk2 = (Inr p, sk1)
       \<and> (let k = deriveIdempotencyKey h (sessionId (sk_state sk1)) (payer (sk_state sk1))
                   (c_challengeId c)
                   (projr (deriveRequestHash h \<lparr> rq_method = toUpperCase h (rq_method rq),
                        rq_url = rq_url rq, rq_body = rq_body rq \<rparr>))
                   (c_amountMicrousdc c)
          in objGet (pendingAttempts (sk_state sk1)) k = Some p
           \<and> length (filter (\<lambda>kv. fst kv = k) (pendingAttempts (sk_state sk1))) = 1)"
proof -
  note s = signForChallenge_success [OF first]
  have again: "signForChallenge h sk1 c rq clk2 = (Inr p, sk1)"
    by (rule signForChallenge_cached) (use s active unexpired in simp_all)
  have own: "map_of (pendingAttempts (sk_state sk1))
       (deriveIdempotencyKey h (sessionId (sk_state sk1)) (payer (sk_state sk1))
          (c_challengeId c)
          (projr (deriveRequestHash h \<lparr> rq_method = toUpperCase h (rq_method rq),
               rq_url = rq_url rq, rq_body = rq_body rq \<rparr>))
          (c_amountMicrousdc c)) = Some p"
    using s by (simp add: getProperty_Own)
  have "distinct (map fst (pendingAttempts (sk_state sk1)))"
    using wfState_sign [OF wf first] by (simp add: wfState_def)
  from count_key_distinct [OF this own] own again
  show ?thesis by (simp add: Let_def objGet_def)
qed

lemma demo_sign_success:
  "\<not> isl (fst (signForChallenge demoHost demoKey (demoChallenge 150000) demoRequest (clockAll 100)))"
  unfolding signForChallenge_def Let_def ensureActive_def getSnapshot_def
  by (simp add: clockAll_def demoKey_def demoState_def demoChallenge_def demoRequest_def
        pendingSpend_empty demoWallet_def deriveRequestHash_def persist_def
        numSub_def toNumber_exact)

text \<open>A first call at 100 ms and a second one at 200 ms; the challenge expires at 500 ms.\<close>

theorem signForChallenge_idempotent_witness:
  "\<not> isl (fst (signForChallenge demoHost demoKey (demoChallenge 150000) demoRequest (clockAll 100)))
   \<and> wfState (sk_state demoKey)
   \<and> \<not> reached demoHost (t_ensureActive (clockAll 200))
         (expiresAt (sk_state (snd (signForChallenge demoHost demoKey (demoChallenge 150000)
            demoRequest (clockAll 100)))))
   \<and> \<not> reached demoHost (t_challengeCheck (clockAll 200)) (c_expiresAt (demoChallenge 150000))
   \<and> signForChallenge demoHost
        (snd (signForChallenge demoHost demoKey (demoChallenge 150000) demoRequest (clockAll 100)))
        (demoChallenge 150000) demoRequest (clockAll 200)
      = signForChallenge demoHost demoKey (demoChallenge 150000) demoRequest (clockAll 100)"
proof -
  let ?first = "signForChallenge demoHost demoKey (demoChallenge 150000) demoRequest (clockAll 100)"
  obtain p where p: "fst ?first = Inr p"
    using demo_sign_success by (metis sum.collapse(2))
  then have first: "?first = (Inr p, snd ?first)" by (metis prod.collapse)
  have wf: "wfState (sk_state demoKey)"
    by (simp add: wfState_def demoKey_def demoState_def)
  have exp: "expiresAt (sk_state (snd ?first)) = lit ''9000''"
    using signForChallenge_success [OF first] by (simp add: demoKey_def demoState_def)
  have active: "\<not> reached demoHost (t_ensureActive (clockAll 200)) (expiresAt (sk_state (snd ?first)))"
    unfolding exp by (simp add: clockAll_def)
  have unexpired: "\<not> reached demoHost (t_challengeCheck (clockAll 200)) (c_expiresAt (demoChallenge 150000))"
    by (simp add: clockAll_def demoChallenge_def)
  from signForChallenge_idempotent [OF first wf active unexpired]
  have "signForChallenge demoHost (snd ?first) (demoChallenge 150000) demoRequest (clockAll 200)
        = ?first"
    using first by simp
  with demo_sign_success wf active unexpired show ?thesis by simp
qed

text \<open>
  The claim as stated asks only for an unexpired session. The expiry of the challenge is
  checked before the pending map is read: a second call at 600 ms, when the session
  (9000 ms) is still active and the challenge (500 ms) has expired, throws.
\<close>

theorem second_call_after_challenge_expiry:
  "\<not> isl (fst (signForChallenge demoHost demoKey (demoChallenge 150000) demoRequest (clockAll 100)))
   \<and> \<not> reached demoHost (t_ensureActive (clockAll 600))
         (expiresAt (sk_state (snd (signForChallenge demoHost demoKey (demoChallenge 150000)
            demoRequest (clockAll 100)))))
   \<and> fst (signForChallenge demoHost
        (snd (signForChallenge demoHost demoKey (demoChallenge 150000) demoRequest (clockAll 100)))
        (demoChallenge 150000) demoRequest (clockAll 600))
      = Inl ChallengeExpired"
proof -
  let ?first = "signForChallenge demoHost demoKey (demoChallenge 150000) demoRequest (clockAll 100)"
  obtain p where p: "fst ?first = Inr p"
    using demo_sign_success by (metis sum.collapse(2))
  then have first: "?first = (Inr p, snd ?first)" by (metis prod.collapse)
  have exp: "expiresAt (sk_state (snd ?first)) = lit ''9000''"
    using signForChallenge_success [OF first] by (simp add: demoKey_def demoState_def)
  have active: "\<not> reached demoHost (t_ensureActive (clockAll 600)) (expiresAt (sk_state (snd ?first)))"
    unfolding exp by (simp add: clockAll_def)
  have "signForChallenge demoHost (snd ?first) (demoChallenge 150000) demoRequest (clockAll 600)
        = (Inl ChallengeExpired, snd ?first)"
    using active
    unfolding signForChallenge_def [of demoHost "snd ?first"] Let_def ensureActive_def
    by (simp add: demoChallenge_def clockAll_def)
  with demo_sign_success active show ?thesis by simp
qed

lemma map_of_filter_other:
  "k' \<noteq> k \<Longrightarrow> map_of (filter (\<lambda>kv. fst kv \<noteq> k) xs) k' = map_of xs k'"
  by (induction xs) auto

lemma objGet_removed_other:
  assumes "wfState st" "k' \<noteq> k"
  shows "objGet (fromEntries (filter (\<lambda>kv. fst kv \<noteq> k) (ownEntries (pendingAttempts st)))) k'
         = objGet (pendingAttempts st) k'"
  using assms
  by (simp add: removed_pending objGet_def map_of_filter_other map_of_ownEntries wfState_def)

text \<open>
  \<^bold>\<open>Claim C10\<close> (frame condition of commit and release). For every state (an object:
  no two pending entries of one key) and every key \<open>k\<close>, \<^verbatim>\<open>commitPayment\<close> and
  \<^verbatim>\<open>releasePayment\<close> leave \<open>sessionId\<close>, \<open>payer\<close>, \<open>spendLimitMicrousdc\<close>,
  \<open>createdAt\<close> and \<open>expiresAt\<close> as they are, and every pending entry of another key
  as it is; \<^verbatim>\<open>releasePayment\<close> also leaves \<open>cumulativeSpendMicrousdc\<close> as it is.
\<close>

theorem commit_release_frame:
  assumes "wfState (sk_state sk)"
  shows "sessionId (sk_state (commitPayment sk k)) = sessionId (sk_state sk)
       \<and> payer (sk_state (commitPayment sk k)) = payer (sk_state sk)
       \<and> spendLimitMicrousdc (sk_state (commitPayment sk k)) = spendLimitMicrousdc (sk_state sk)
       \<and> createdAt (sk_state (commitPayment sk k)) = createdAt (sk_state sk)
       \<and> expiresAt (sk_state (commitPayment sk k)) = expiresAt (sk_state sk)
       \<and> (\<forall>k'. k' \<noteq> k \<longrightarrow>
            objGet (pendingAttempts (sk_state (commitPayment sk k))) k'
            = objGet (pendingAttempts (sk_state sk)) k')
       \<and> sessionId (sk_state (releasePayment sk k)) = sessionId (sk_state sk)
       \<and> payer (sk_state (releasePayment sk k)) = payer (sk_state sk)
       \<and> spendLimitMicrousdc (sk_state (releasePayment sk k)) = spendLimitMicrousdc (sk_state sk)
       \<and> createdAt (sk_state (releasePayment sk k)) = createdAt (sk_state sk)
       \<and> expiresAt (sk_state (releasePayment sk k)) = expiresAt (sk_state sk)
       \<and> (\<forall>k'. k' \<noteq> k \<longrightarrow>
            objGet (pendingAttempts (sk_state (releasePayment sk k))) k'
            = objGet (pendingAttempts (sk_state sk)) k')
       \<and> cumulativeSpendMicrousdc (sk_state (releasePayment sk k))
         = cumulativeSpendMicrousdc (sk_state sk)"
proof (cases "getProperty (pendingAttempts (sk_state sk)) k = Undefined")
  case True
  then show ?thesis by (simp add: commitPayment_Undefined releasePayment_Undefined)
next
  case False
  then show ?thesis
    using assms by (simp add: commitPayment_state releasePayment_state objGet_removed_other)
qed

lemma lit_aceid_neq: "lit ''aceid_2'' \<noteq> lit ''aceid_1''"
  by (simp add: lit_def)

text \<open>A state with two pending payments; the first one is committed, or released.\<close>

theorem commit_release_frame_witness:
  "wfState (sk_state demoKey2)
   \<and> lit ''aceid_2'' \<noteq> lit ''aceid_1''
   \<and> objGet (pendingAttempts (sk_state (commitPayment demoKey2 (lit ''aceid_1'')))) (lit ''aceid_2'')
     = Some (demoPayment (lit ''aceid_2'') 70000)
   \<and> objGet (pendingAttempts (sk_state (releasePayment demoKey2 (lit ''aceid_1'')))) (lit ''aceid_2'')
     = Some (demoPayment (lit ''aceid_2'') 70000)
   \<and> spendLimitMicrousdc (sk_state (commitPayment demoKey2 (lit ''aceid_1''))) = 200000
   \<and> cumulativeSpendMicrousdc (sk_state (releasePayment demoKey2 (lit ''aceid_1''))) = Num 0"
proof -
  have wf: "wfState (sk_state demoKey2)"
    by (simp add: wfState_def demoKey2_def demoKey_def lit_def)
  have g: "objGet (pendingAttempts (sk_state demoKey2)) (lit ''aceid_2'')
           = Some (demoPayment (lit ''aceid_2'') 70000)"
    by (simp add: objGet_def demoKey2_def demoKey_def lit_def)
  have s: "spendLimitMicrousdc (sk_state demoKey2) = 200000"
     "cumulativeSpendMicrousdc (sk_state demoKey2) = Num 0"
    by (simp_all add: demoKey2_def demoKey_def demoState_def)
  from commit_release_frame [OF wf, of "lit ''aceid_1''"] lit_aceid_neq g s wf
  show ?thesis by simp
qed

text \<open>
  \<^bold>\<open>Claim C7\<close> (commit of an absent key is a no-op): the code at the failing input.
  The key \<^verbatim>\<open>constructor\<close> is not a pending attempt of the session, but
  \<^verbatim>\<open>pendingAttempts["constructor"]\<close> is the function inherited from
  \<^verbatim>\<open>Object.prototype\<close>, which is truthy: \<^verbatim>\<open>commitPayment\<close> goes on, adds
  \<^verbatim>\<open>undefined\<close> to the cumulative spend, which becomes \<open>NaN\<close>, and saves the state.
\<close>

theorem commitPayment_inherited_key:
  "objGet (pendingAttempts (sk_state demoKey)) (lit ''constructor'') = None
   \<and> cumulativeSpendMicrousdc (sk_state demoKey) = Num 0
   \<and> cumulativeSpendMicrousdc (sk_state (commitPayment demoKey (lit ''constructor''))) = NaN
   \<and> sk_store (commitPayment demoKey (lit ''constructor'')) (lit ''s1'')
       = Some (demoState\<lparr> cumulativeSpendMicrousdc := NaN \<rparr>)"
  by (simp add: commitPayment_def getProperty_def objGet_def demoKey_def demoState_def
        objectPrototypeKeys_def persist_def save_def ownEntries_def fromEntries_def)

text \<open>
  For the keys that are not inherited, \<^verbatim>\<open>commitPayment\<close> does what the claim says: an
  absent key changes nothing; a pending key moves its amount to the cumulative spend,
  leaves the pending map and is saved; a second commit of the same key changes nothing.
\<close>

lemma commitPayment_own_key:
  assumes own: "getProperty (pendingAttempts (sk_state sk)) k = Own a"
    and wf: "wfState (sk_state sk)"
  shows "cumulativeSpendMicrousdc (sk_state (commitPayment sk k))
         = numAdd (cumulativeSpendMicrousdc (sk_state sk)) (Num (p_amountMicrousdc a))
       \<and> objGet (pendingAttempts (sk_state (commitPayment sk k))) k = None
       \<and> sk_store (commitPayment sk k) (sessionId (sk_state sk))
         = Some (sk_state (commitPayment sk k))
       \<and> (k \<notin> set objectPrototypeKeys \<longrightarrow>
            commitPayment (commitPayment sk k) k = commitPayment sk k)"
proof -
  have st: "sk_state (commitPayment sk k) = (sk_state sk)
     \<lparr> cumulativeSpendMicrousdc :=
         numAdd (cumulativeSpendMicrousdc (sk_state sk)) (Num (p_amountMicrousdc a)),
       pendingAttempts :=
         fromEntries (filter (\<lambda>kv. fst kv \<noteq> k) (ownEntries (pendingAttempts (sk_state sk)))) \<rparr>"
    using own by (simp add: commitPayment_state)
  have gone: "objGet (pendingAttempts (sk_state (commitPayment sk k))) k = None"
    by (auto simp: st objGet_None_iff)
  have store: "sk_store (commitPayment sk k) (sessionId (sk_state sk))
         = Some (sk_state (commitPayment sk k))"
    using own by (simp add: commitPayment_store save_def)
  have "k \<notin> set objectPrototypeKeys \<Longrightarrow>
        getProperty (pendingAttempts (sk_state (commitPayment sk k))) k = Undefined"
    using gone by (simp add: getProperty_def)
  then show ?thesis using st gone store by (simp add: commitPayment_Undefined)
qed

lemma commitPayment_absent_key:
  "k \<notin> fst ` set (pendingAttempts (sk_state sk)) \<Longrightarrow> k \<notin> set objectPrototypeKeys \<Longrightarrow>
   commitPayment sk k = sk"
  by (rule commitPayment_Undefined) (simp add: getProperty_def objGet_None_iff [symmetric])

text \<open>
  \<^bold>\<open>Claim C8\<close> (the cumulative spend never decreases): the code at the failing input.
  All pending amounts are positive. A first commit brings the cumulative spend to 50000;
  the commit of the key \<^verbatim>\<open>toString\<close>, which the ledger finds in
  \<^verbatim>\<open>Object.prototype\<close>, turns it into \<open>NaN\<close>: the total is lost, and it is not
  greater than or equal to the total before.
\<close>

theorem cumulative_lost_on_inherited_key:
  "positiveAmounts (sk_state demoKey2)
   \<and> cumulativeSpendMicrousdc
       (sk_state (runOps demoHost demoKey2 [CommitPayment (lit ''aceid_1'')])) = Num 50000
   \<and> cumulativeSpendMicrousdc
       (sk_state (runOps demoHost demoKey2
          [CommitPayment (lit ''aceid_1''), CommitPayment (lit ''toString'')])) = NaN"
  by (simp add: runOps_def commitPayment_def getProperty_def objGet_def demoKey2_def demoKey_def
        demoState_def demoPayment_def positiveAmounts_def
        objectPrototypeKeys_def persist_def save_def ownEntries_def fromEntries_def lit_def
        isArrayIndex_def isDigit_def toNumber_exact)

lemma commitPayment_exact:
  assumes safe: "safeState (sk_state sk)"
    and own: "getProperty (pendingAttempts (sk_state sk)) k = Own a"
    and c: "cumulativeSpendMicrousdc (sk_state sk) = Num c"
  shows "cumulativeSpendMicrousdc (sk_state (commitPayment sk k)) = Num (c + p_amountMicrousdc a)
       \<and> 0 < p_amountMicrousdc a"
proof -
  let ?st = "sk_state sk"
  from safe obtain c0 where f: "cumulativeSpendMicrousdc ?st = Num c0" "0 \<le> c0"
    "c0 + pendingTotal ?st \<le> spendLimitMicrousdc ?st" "spendLimitMicrousdc ?st < 2 ^ 53"
    "0 \<le> pendingTotal ?st" "wfState ?st" "positiveAmounts ?st"
    by (rule safeState_facts)
  have c0: "c0 = c" using f(1) c by simp
  have m: "map_of (pendingAttempts ?st) k = Some a" using own by (simp add: getProperty_Own)
  have apos: "0 < p_amountMicrousdc a" by (rule positive_amount_own [OF f(7) m])
  have "pendingTotal (sk_state (releasePayment sk k)) = pendingTotal ?st - p_amountMicrousdc a"
    by (rule pendingTotal_removed_own [OF f(6) m]) (use own in \<open>simp add: releasePayment_state\<close>)
  moreover have "0 \<le> pendingTotal (sk_state (releasePayment sk k))"
    using safeState_release [OF safe, of k] by (auto elim: safeState_facts)
  ultimately have le: "p_amountMicrousdc a \<le> pendingTotal ?st" by simp
  have "numAdd (Num c) (Num (p_amountMicrousdc a)) = Num (c + p_amountMicrousdc a)"
    by (rule numAdd_exact) (use f le apos c0 in simp)
  then show ?thesis using own c apos by (simp add: commitPayment_state)
qed

lemma applyOp_monotone:
  assumes safe: "safeState (sk_state sk)"
    and ok: "ledgerOpOk op" and c: "cumulativeSpendMicrousdc (sk_state sk) = Num c"
  shows "safeState (sk_state (applyOp h sk op))
       \<and> (\<exists>c'. cumulativeSpendMicrousdc (sk_state (applyOp h sk op)) = Num c' \<and> c \<le> c')"
proof (cases op)
  case (SignForChallenge ch rq clk)
  obtain r sk' where run: "signForChallenge h sk ch rq clk = (r, sk')"
    by (cases "signForChallenge h sk ch rq clk")
  have pos: "0 < c_amountMicrousdc ch" using ok SignForChallenge by simp
  have "cumulativeSpendMicrousdc (sk_state sk') = Num c"
    using signForChallenge_cases [OF run] c by auto
  then show ?thesis
    using safeState_sign [OF safe pos run] run SignForChallenge by simp
next
  case (CommitPayment k)
  have key: "getProperty (pendingAttempts (sk_state sk)) k \<noteq> Inherited"
    using ok CommitPayment by (simp add: getProperty_not_Inherited)
  note safe' = safeState_commit [OF safe key]
  show ?thesis
  proof (cases "getProperty (pendingAttempts (sk_state sk)) k")
    case (Own a)
    from commitPayment_exact [OF safe Own c] safe' show ?thesis using CommitPayment by simp
  next
    case Inherited
    then show ?thesis using key by simp
  next
    case Undefined
    then show ?thesis using safe c CommitPayment by (simp add: commitPayment_Undefined)
  qed
next
  case (ReleasePayment k)
  have "cumulativeSpendMicrousdc (sk_state (releasePayment sk k)) = Num c"
    using c by (cases "getProperty (pendingAttempts (sk_state sk)) k = Undefined")
      (simp_all add: releasePayment_Undefined releasePayment_state)
  then show ?thesis using safeState_release [OF safe, of k] ReleasePayment by simp
qed

text \<open>
  With no committed key inherited from \<^verbatim>\<open>Object.prototype\<close>, the cumulative spend
  of a session in the range of the amended spend-safety claim never decreases.
\<close>

lemma cumulative_monotone:
  assumes "safeState (sk_state sk)" "list_all ledgerOpOk ops"
    "cumulativeSpendMicrousdc (sk_state sk) = Num c"
  shows "\<exists>c'. cumulativeSpendMicrousdc (sk_state (runOps h sk ops)) = Num c' \<and> c \<le> c'"
  using assms
proof (induction ops arbitrary: sk c)
  case Nil
  then show ?case by (simp add: runOps_def)
next
  case (Cons op ops)
  from applyOp_monotone [OF Cons.prems(1) _ Cons.prems(3), of op h] Cons.prems(2)
  obtain c1 where s: "safeState (sk_state (applyOp h sk op))"
      "cumulativeSpendMicrousdc (sk_state (applyOp h sk op)) = Num c1" "c \<le> c1"
    by auto
  from Cons.IH [OF s(1) _ s(2)] Cons.prems(2)
  obtain c' where "cumulativeSpendMicrousdc (sk_state (runOps h (applyOp h sk op) ops)) = Num c'"
      "c1 \<le> c'"
    by auto
  then show ?case using s(3) by (auto simp: runOps_def)
qed

text \<open>
  The steps of the two runs of the examples: \<^verbatim>\<open>signForChallenge\<close> on a session with
  no pending payment, and a commit or release of the only pending payment.
\<close>

lemma signForChallenge_signs:
  assumes active: "\<not> reached h (t_ensureActive clk) (expiresAt (sk_state sk))"
    and version: "c_version c = ACE_PAYMENT_VERSION" and currency: "c_currency c = lit ''USDC''"
    and unexpired: "\<not> reached h (t_challengeCheck clk) (c_expiresAt c)"
    and resource: "deriveResource h (rq_url rq) = Inr (c_resource c)"
    and sameMethod: "c_method c = toUpperCase h (rq_method rq)"
    and hash: "deriveRequestHash h \<lparr> rq_method = toUpperCase h (rq_method rq),
                 rq_url = rq_url rq, rq_body = rq_body rq \<rparr> = Inr rh"
    and empty: "pendingAttempts (sk_state sk) = []"
    and fits: "\<not> numGreater (Num (c_amountMicrousdc c))
                  (snap_availableSpendMicrousdc (getSnapshot (sk_state sk)))"
    and signs: "signMessage (sk_wallet sk) = (\<lambda>message. Some sig)"
  shows "\<exists>p. fst (signForChallenge h sk c rq clk) = Inr p
           \<and> p_amountMicrousdc p = c_amountMicrousdc c
           \<and> sk_state (snd (signForChallenge h sk c rq clk))
             = (sk_state sk)\<lparr> pendingAttempts :=
                 [(deriveIdempotencyKey h (sessionId (sk_state sk)) (payer (sk_state sk))
                     (c_challengeId c) rh (c_amountMicrousdc c), p)] \<rparr>
           \<and> sk_wallet (snd (signForChallenge h sk c rq clk)) = sk_wallet sk
           \<and> sk_store (snd (signForChallenge h sk c rq clk))
             = (sk_store sk)(sessionId (sk_state sk) \<mapsto>
                  sk_state (snd (signForChallenge h sk c rq clk)))"
  using assms
  unfolding signForChallenge_def Let_def ensureActive_def
  by (simp add: persist_def save_def ownEntries_def fromEntries_def UnsignedPayment.extend_def)

lemma removed_single:
  "fromEntries (filter (\<lambda>kv. fst kv \<noteq> k) (ownEntries [(k, p)])) = []"
proof -
  have "filter (\<lambda>kv. fst kv \<noteq> k) (ownEntries [(k, p)]) = []"
    by (simp add: filter_empty_conv)
  then show ?thesis by (simp add: fromEntries_def)
qed

lemma commitPayment_single:
  assumes "pendingAttempts (sk_state sk) = [(k, p)]"
  shows "sk_state (commitPayment sk k)
         = (sk_state sk)\<lparr> cumulativeSpendMicrousdc :=
               numAdd (cumulativeSpendMicrousdc (sk_state sk)) (Num (p_amountMicrousdc p)),
             pendingAttempts := [] \<rparr>
       \<and> sk_wallet (commitPayment sk k) = sk_wallet sk
       \<and> sk_store (commitPayment sk k)
         = (sk_store sk)(sessionId (sk_state sk) \<mapsto> sk_state (commitPayment sk k))"
proof -
  have own: "getProperty (pendingAttempts (sk_state sk)) k = Own p"
    using assms by (simp add: getProperty_def objGet_def)
  then have "getProperty (pendingAttempts (sk_state sk)) k \<noteq> Undefined" by simp
  from commitPayment_state [OF this] commitPayment_store [OF this] own
  show ?thesis
    by (simp add: assms removed_single save_def fromEntries_def) (simp add: commitPayment_def persist_def Let_def)
qed

lemma releasePayment_single:
  assumes "pendingAttempts (sk_state sk) = [(k, p)]"
  shows "sk_state (releasePayment sk k) = (sk_state sk)\<lparr> pendingAttempts := [] \<rparr>
       \<and> sk_wallet (releasePayment sk k) = sk_wallet sk
       \<and> sk_store (releasePayment sk k)
         = (sk_store sk)(sessionId (sk_state sk) \<mapsto> sk_state (releasePayment sk k))"
proof -
  have own: "getProperty (pendingAttempts (sk_state sk)) k = Own p"
    using assms by (simp add: getProperty_def objGet_def)
  then have "getProperty (pendingAttempts (sk_state sk)) k \<noteq> Undefined" by simp
  from releasePayment_state [OF this] releasePayment_store [OF this] own
  show ?thesis
    by (simp add: assms removed_single save_def fromEntries_def) (simp add: releasePayment_def persist_def Let_def)
qed

lemma demo_lower [simp]: "toLowerCase demoHost (lit ''0xABC'') = lit ''0xabc''"
  by (simp add: demoHost_def lit_def asciiLower_def)

lemma demo_upper_GET [simp]: "toUpperCase demoHost (lit ''GET'') = lit ''GET''"
  by (simp add: demoHost_def lit_def asciiUpper_def)

lemma demo_requestHash_eq:
  "deriveRequestHash demoHost \<lparr> rq_method = lit ''GET'', rq_url = lit ''/compute'', rq_body = None \<rparr>
   = Inr demoRequestHash"
  by (simp add: demoRequestHash_def deriveRequestHash_def Let_def)

lemma demo_iso:
  "toISOString demoHost 0 = lit ''0''" "toISOString demoHost 60000 = lit ''60000''"
  by (simp_all add: demoHost_def showInt_def showNat.simps lit_def)

lemma demo_reached_created [simp]: "reached demoHost t (lit ''60000'') = (60000 \<le> t)"
  by (simp add: reached_def demoHost_def lit_def isDigit_def decimalValue_def)

lemma demo_created:
  "applySessionOp demoHost \<lparr> sys_store = Map.empty, sys_keys = [] \<rparr> (demoCreate limit)
   = \<lparr> sys_store = [lit ''s9'' \<mapsto> demoSession limit (Num 0) []],
       sys_keys = [\<lparr> sk_wallet = demoWallet,
                     sk_store = [lit ''s9'' \<mapsto> demoSession limit (Num 0) []],
                     sk_state = demoSession limit (Num 0) [], sk_signLog = [] \<rparr>] \<rparr>"
  by (simp add: demoCreate_def create_def Let_def demoWallet_def load_def save_def demo_iso
        newDate_def getTime_def toNumber_exact dateToISOString_def demoSession_def)

lemma demo_sign_step:
  assumes keys: "sys_keys sys = [sk]" and w: "sk_wallet sk = demoWallet"
    and st: "sk_state sk = demoSession limit spent []"
    and fits: "\<not> numGreater (Num amount) (numSub (numSub (Num limit) spent) (Num 0))"
    and t: "t < 500"
  shows "\<exists>sk' p.
           sys_keys (applySessionOp demoHost sys
             (OnKey 0 (SignForChallenge (demoChallenge amount) demoRequest (clockAll t)))) = [sk']
         \<and> sk_wallet sk' = demoWallet
         \<and> sk_state sk' = demoSession limit spent [(demoKeyOf (lit ''s9'') amount, p)]
         \<and> p_amountMicrousdc p = amount
         \<and> sys_store (applySessionOp demoHost sys
             (OnKey 0 (SignForChallenge (demoChallenge amount) demoRequest (clockAll t))))
             (lit ''s9'') = Some (sk_state sk')"
proof -
  let ?sk = "sk\<lparr> sk_store := sys_store sys \<rparr>"
  let ?r = "signForChallenge demoHost ?sk (demoChallenge amount) demoRequest (clockAll t)"
  have "\<exists>p. fst ?r = Inr p
           \<and> p_amountMicrousdc p = c_amountMicrousdc (demoChallenge amount)
           \<and> sk_state (snd ?r)
             = (sk_state ?sk)\<lparr> pendingAttempts :=
                 [(deriveIdempotencyKey demoHost (sessionId (sk_state ?sk)) (payer (sk_state ?sk))
                     (c_challengeId (demoChallenge amount)) demoRequestHash
                     (c_amountMicrousdc (demoChallenge amount)), p)] \<rparr>
           \<and> sk_wallet (snd ?r) = sk_wallet ?sk
           \<and> sk_store (snd ?r) = (sk_store ?sk)(sessionId (sk_state ?sk) \<mapsto> sk_state (snd ?r))"
  proof (rule signForChallenge_signs)
    show "\<not> reached demoHost (t_ensureActive (clockAll t)) (expiresAt (sk_state ?sk))"
      using t by (simp add: st demoSession_def clockAll_def)
    show "\<not> reached demoHost (t_challengeCheck (clockAll t)) (c_expiresAt (demoChallenge amount))"
      using t by (simp add: demoChallenge_def clockAll_def)
    show "deriveRequestHash demoHost
            \<lparr> rq_method = toUpperCase demoHost (rq_method demoRequest),
              rq_url = rq_url demoRequest, rq_body = rq_body demoRequest \<rparr> = Inr demoRequestHash"
      by (simp add: demoRequest_def demo_requestHash_eq)
    show "\<not> numGreater (Num (c_amountMicrousdc (demoChallenge amount)))
              (snap_availableSpendMicrousdc (getSnapshot (sk_state ?sk)))"
      using fits
      by (simp add: getSnapshot_def Let_def st pendingSpend_empty demoSession_def demoChallenge_def)
    show "signMessage (sk_wallet ?sk) = (\<lambda>message. Some (lit ''0xsig''))"
      by (simp add: w demoWallet_def)
  qed (simp_all add: st demoSession_def demoChallenge_def demoRequest_def)
  then obtain p where p: "fst ?r = Inr p" "p_amountMicrousdc p = amount"
      "sk_state (snd ?r) = demoSession limit spent [(demoKeyOf (lit ''s9'') amount, p)]"
      "sk_wallet (snd ?r) = demoWallet"
      "sk_store (snd ?r) (lit ''s9'') = Some (sk_state (snd ?r))"
    by (auto simp: st demoSession_def demoChallenge_def demoKeyOf_def w)
  have "sys_keys (applySessionOp demoHost sys
             (OnKey 0 (SignForChallenge (demoChallenge amount) demoRequest (clockAll t)))) = [snd ?r]"
    and "sys_store (applySessionOp demoHost sys
             (OnKey 0 (SignForChallenge (demoChallenge amount) demoRequest (clockAll t))))
           (lit ''s9'') = Some (sk_state (snd ?r))"
    using keys p by (simp_all add: Let_def)
  with p show ?thesis by blast
qed

lemma demo_commit_step:
  assumes keys: "sys_keys sys = [sk]" and w: "sk_wallet sk = demoWallet"
    and st: "sk_state sk = demoSession limit spent [(k, p)]"
  shows "\<exists>sk'.
           sys_keys (applySessionOp demoHost sys (OnKey 0 (CommitPayment k))) = [sk']
         \<and> sk_wallet sk' = demoWallet
         \<and> sk_state sk' = demoSession limit (numAdd spent (Num (p_amountMicrousdc p))) []
         \<and> sys_store (applySessionOp demoHost sys (OnKey 0 (CommitPayment k))) (lit ''s9'')
           = Some (sk_state sk')"
proof -
  let ?sk = "sk\<lparr> sk_store := sys_store sys \<rparr>"
  have "pendingAttempts (sk_state ?sk) = [(k, p)]" by (simp add: st demoSession_def)
  from commitPayment_single [OF this] show ?thesis
    using keys w by (simp add: Let_def st demoSession_def)
qed

lemma demo_release_step:
  assumes keys: "sys_keys sys = [sk]" and w: "sk_wallet sk = demoWallet"
    and st: "sk_state sk = demoSession limit spent [(k, p)]"
  shows "\<exists>sk'.
           sys_keys (applySessionOp demoHost sys (OnKey 0 (ReleasePayment k))) = [sk']
         \<and> sk_wallet sk' = demoWallet
         \<and> sk_state sk' = demoSession limit spent []
         \<and> sys_store (applySessionOp demoHost sys (OnKey 0 (ReleasePayment k))) (lit ''s9'')
           = Some (sk_state sk')"
proof -
  let ?sk = "sk\<lparr> sk_store := sys_store sys \<rparr>"
  have "pendingAttempts (sk_state ?sk) = [(k, p)]" by (simp add: st demoSession_def)
  from releasePayment_single [OF this] show ?thesis
    using keys w by (simp add: Let_def st demoSession_def)
qed

lemma demo_restore_step:
  assumes keys: "sys_keys sys = [sk]"
    and store: "sys_store sys (lit ''s9'') = Some (demoSession limit spent pending)"
  shows "map sk_state (sys_keys (applySessionOp demoHost sys (Restore demoWallet (lit ''s9''))))
         = [sk_state sk, demoSession limit spent pending]"
  using assms by (simp add: restore_def Let_def demoWallet_def load_def demoSession_def)

lemma demo_run:
  "map sk_state (sys_keys (runSession demoHost \<lparr> sys_store = Map.empty, sys_keys = [] \<rparr> demoOps))
   = [demoSession 1000000 (Num 250000) [], demoSession 1000000 (Num 250000) []]"
proof -
  let ?sign = "\<lambda>t. OnKey 0 (SignForChallenge (demoChallenge 250000) demoRequest (clockAll t))"
  let ?k = "demoKeyOf (lit ''s9'') 250000"
  define sys1 where "sys1 = applySessionOp demoHost \<lparr> sys_store = Map.empty, sys_keys = [] \<rparr>
                              (demoCreate 1000000)"
  define sys2 where "sys2 = applySessionOp demoHost sys1 (?sign 100)"
  define sys3 where "sys3 = applySessionOp demoHost sys2 (OnKey 0 (CommitPayment ?k))"
  define sys4 where "sys4 = applySessionOp demoHost sys3 (?sign 200)"
  define sys5 where "sys5 = applySessionOp demoHost sys4 (OnKey 0 (ReleasePayment ?k))"
  obtain sk1 where s1: "sys_keys sys1 = [sk1]" "sk_wallet sk1 = demoWallet"
      "sk_state sk1 = demoSession 1000000 (Num 0) []"
    by (simp add: sys1_def demo_created)
  have fits1: "\<not> numGreater (Num 250000) (numSub (numSub (Num 1000000) (Num 0)) (Num 0))"
    by (simp add: numSub_def toNumber_exact)
  from demo_sign_step [OF s1 fits1, of 100]
  obtain sk2 p2 where s2: "sys_keys sys2 = [sk2]" "sk_wallet sk2 = demoWallet"
      "sk_state sk2 = demoSession 1000000 (Num 0) [(?k, p2)]" and a2: "p_amountMicrousdc p2 = 250000"
    unfolding sys2_def by auto
  from demo_commit_step [OF s2]
  obtain sk3 where s3: "sys_keys sys3 = [sk3]" "sk_wallet sk3 = demoWallet"
      "sk_state sk3 = demoSession 1000000 (Num 250000) []"
    unfolding sys3_def by (auto simp: a2 toNumber_exact)
  have fits3: "\<not> numGreater (Num 250000) (numSub (numSub (Num 1000000) (Num 250000)) (Num 0))"
    by (simp add: numSub_def toNumber_exact)
  from demo_sign_step [OF s3 fits3, of 200]
  obtain sk4 p4 where s4: "sys_keys sys4 = [sk4]" "sk_wallet sk4 = demoWallet"
      "sk_state sk4 = demoSession 1000000 (Num 250000) [(?k, p4)]"
    unfolding sys4_def by auto
  from demo_release_step [OF s4]
  obtain sk5 where s5: "sys_keys sys5 = [sk5]"
      "sk_state sk5 = demoSession 1000000 (Num 250000) []"
      "sys_store sys5 (lit ''s9'') = Some (demoSession 1000000 (Num 250000) [])"
    unfolding sys5_def by auto
  have "runSession demoHost \<lparr> sys_store = Map.empty, sys_keys = [] \<rparr> demoOps
        = applySessionOp demoHost sys5 (Restore demoWallet (lit ''s9''))"
    by (simp only: runSession_def demoOps_def foldl_Cons foldl_Nil
          sys1_def sys2_def sys3_def sys4_def sys5_def)
  with demo_restore_step [OF s5(1,3)] s5(2) show ?thesis by simp
qed

lemma demo_large_available:
  "numSub (numSub (Num 9007199254740996) (Num 0)) (Num 0) = Num 9007199254740996"
  "numSub (numSub (Num 9007199254740996) (Num 1)) (Num 0) = Num 9007199254740996"
  by (simp_all add: numSub_def toNumber_def roundMagnitude_def Let_def ulp.simps)

lemma demo_large_run:
  "\<exists>p. map sk_state (sys_keys (runSession demoHost \<lparr> sys_store = Map.empty, sys_keys = [] \<rparr>
            demoLargeOps))
        = [demoSession 9007199254740996 (Num 1)
             [(demoKeyOf (lit ''s9'') 9007199254740996, p)]]
      \<and> p_amountMicrousdc p = 9007199254740996"
proof -
  let ?L = "9007199254740996 :: int"
  let ?sign = "\<lambda>amount t. OnKey 0 (SignForChallenge (demoChallenge amount) demoRequest (clockAll t))"
  define sys1 where "sys1 = applySessionOp demoHost \<lparr> sys_store = Map.empty, sys_keys = [] \<rparr>
                              (demoCreate ?L)"
  define sys2 where "sys2 = applySessionOp demoHost sys1 (?sign 1 100)"
  define sys3 where "sys3 = applySessionOp demoHost sys2
                              (OnKey 0 (CommitPayment (demoKeyOf (lit ''s9'') 1)))"
  define sys4 where "sys4 = applySessionOp demoHost sys3 (?sign ?L 200)"
  obtain sk1 where s1: "sys_keys sys1 = [sk1]" "sk_wallet sk1 = demoWallet"
      "sk_state sk1 = demoSession ?L (Num 0) []"
    by (simp add: sys1_def demo_created)
  have fits1: "\<not> numGreater (Num 1) (numSub (numSub (Num ?L) (Num 0)) (Num 0))"
    by (simp add: demo_large_available)
  from demo_sign_step [OF s1 fits1, of 100]
  obtain sk2 p2 where s2: "sys_keys sys2 = [sk2]" "sk_wallet sk2 = demoWallet"
      "sk_state sk2 = demoSession ?L (Num 0) [(demoKeyOf (lit ''s9'') 1, p2)]"
      and a2: "p_amountMicrousdc p2 = 1"
    unfolding sys2_def by auto
  from demo_commit_step [OF s2]
  obtain sk3 where s3: "sys_keys sys3 = [sk3]" "sk_wallet sk3 = demoWallet"
      "sk_state sk3 = demoSession ?L (Num 1) []"
    unfolding sys3_def by (auto simp: a2 toNumber_exact)
  have fits3: "\<not> numGreater (Num ?L) (numSub (numSub (Num ?L) (Num 1)) (Num 0))"
    by (simp add: demo_large_available)
  from demo_sign_step [OF s3 fits3, of 200]
  obtain sk4 p4 where s4: "sys_keys sys4 = [sk4]"
      "sk_state sk4 = demoSession ?L (Num 1) [(demoKeyOf (lit ''s9'') ?L, p4)]"
      "p_amountMicrousdc p4 = ?L"
    unfolding sys4_def by auto
  have "runSession demoHost \<lparr> sys_store = Map.empty, sys_keys = [] \<rparr> demoLargeOps = sys4"
    by (simp only: runSession_def demoLargeOps_def foldl_Cons foldl_Nil
          sys1_def sys2_def sys3_def sys4_def)
  with s4 show ?thesis by (intro exI [of _ p4]) simp
qed

text \<open>
  The claim as stated fails in two ways. \<^verbatim>\<open>SessionKey.create\<close> takes any number as
  the limit (only \<^verbatim>\<open>authorize\<close> converts and checks it), and a session created with
  the limit \<open>-1\<close> has \<open>0 + 0 > -1\<close>. And beyond \<open>2^53\<close> the differences that
  \<^verbatim>\<open>getSnapshot\<close> computes are rounded: with the limit \<open>2^53 + 4\<close> (a double) and a
  cumulative spend of 1, \<open>limit - cumulative\<close> is \<open>2^53 + 3\<close>, which rounds to
  \<open>2^53 + 4\<close>, so a challenge of \<open>2^53 + 4\<close> is signed and \<open>1 + (2^53 + 4)\<close>
  exceeds the limit. All amounts of this run are positive integers.
\<close>

theorem spend_safety_counterexample:
  "\<not> isl (create demoHost 0 (lit ''s1'') demoWallet Map.empty
            \<lparr> ci_spendLimitMicrousdc = - 1, ci_ttlSeconds = 60,
              ci_sessionId = None, ci_now = None \<rparr>)
   \<and> \<not> spendSafe (sk_state (projr (create demoHost 0 (lit ''s1'') demoWallet Map.empty
            \<lparr> ci_spendLimitMicrousdc = - 1, ci_ttlSeconds = 60,
              ci_sessionId = None, ci_now = None \<rparr>)))
   \<and> toNumber 9007199254740996 = Num 9007199254740996
   \<and> length (sys_keys (runSession demoHost \<lparr> sys_store = Map.empty, sys_keys = [] \<rparr>
        demoLargeOps)) = 1
   \<and> spendLimitMicrousdc (sk_state (hd (sys_keys (runSession demoHost
        \<lparr> sys_store = Map.empty, sys_keys = [] \<rparr> demoLargeOps)))) = 9007199254740996
   \<and> cumulativeSpendMicrousdc (sk_state (hd (sys_keys (runSession demoHost
        \<lparr> sys_store = Map.empty, sys_keys = [] \<rparr> demoLargeOps)))) = Num 1
   \<and> pendingTotal (sk_state (hd (sys_keys (runSession demoHost
        \<lparr> sys_store = Map.empty, sys_keys = [] \<rparr> demoLargeOps)))) = 9007199254740996
   \<and> positiveAmounts (sk_state (hd (sys_keys (runSession demoHost
        \<lparr> sys_store = Map.empty, sys_keys = [] \<rparr> demoLargeOps))))
   \<and> \<not> spendSafe (sk_state (hd (sys_keys (runSession demoHost
        \<lparr> sys_store = Map.empty, sys_keys = [] \<rparr> demoLargeOps))))"
proof -
  let ?input = "\<lparr> ci_spendLimitMicrousdc = - 1, ci_ttlSeconds = 60,
                   ci_sessionId = None, ci_now = None \<rparr>"
  have neg: "\<not> isl (create demoHost 0 (lit ''s1'') demoWallet Map.empty ?input)
     \<and> \<not> spendSafe (sk_state (projr (create demoHost 0 (lit ''s1'') demoWallet Map.empty ?input)))"
    by (simp add: create_def Let_def demoWallet_def load_def spendSafe_def pendingTotal_def
          newDate_def getTime_def toNumber_exact dateToISOString_def)
  let ?keys = "sys_keys (runSession demoHost \<lparr> sys_store = Map.empty, sys_keys = [] \<rparr> demoLargeOps)"
  from demo_large_run obtain p where
    run: "map sk_state ?keys
          = [demoSession 9007199254740996 (Num 1) [(demoKeyOf (lit ''s9'') 9007199254740996, p)]]"
    and amount: "p_amountMicrousdc p = 9007199254740996"
    by auto
  from run have len: "length ?keys = 1"
    by (metis length_map length_Cons list.size(3) One_nat_def)
  then obtain sk where keys: "?keys = [sk]"
    by (cases ?keys) simp_all
  have st: "sk_state (hd ?keys)
            = demoSession 9007199254740996 (Num 1) [(demoKeyOf (lit ''s9'') 9007199254740996, p)]"
    using run keys by simp
  have double: "toNumber 9007199254740996 = Num 9007199254740996"
    by (simp add: toNumber_def roundMagnitude_def Let_def ulp.simps)
  show ?thesis
    unfolding st
    using neg len amount double
    by (simp add: demoSession_def spendSafe_def pendingTotal_def positiveAmounts_def)
qed

text \<open>
  The run of \<open>demoOps\<close> satisfies the hypothesis. Its commit and its release act on the
  pending payment: at the end both keys of the session hold a cumulative spend of
  0.25 USDC and no pending payment.
\<close>

theorem spend_safety_witness:
  "sysSafe \<lparr> sys_store = Map.empty, sys_keys = [] \<rparr>
   \<and> list_all sessionOpOk demoOps
   \<and> map sk_state (sys_keys (runSession demoHost \<lparr> sys_store = Map.empty, sys_keys = [] \<rparr> demoOps))
     = [demoSession 1000000 (Num 250000) [], demoSession 1000000 (Num 250000) []]
   \<and> list_all (\<lambda>sk. spendSafe (sk_state sk))
        (sys_keys (runSession demoHost \<lparr> sys_store = Map.empty, sys_keys = [] \<rparr> demoOps))
   \<and> spendSafe (demoSession 1000000 (Num 250000) [])"
proof -
  have safe: "sysSafe \<lparr> sys_store = Map.empty, sys_keys = [] \<rparr>"
    by (simp add: sysSafe_def storeSafe_def)
  have ok: "list_all sessionOpOk demoOps"
    by (simp add: demoOps_def demoCreate_def demoChallenge_def demoKeyOf_def
          deriveIdempotencyKey_not_inherited maxSafeInteger_def)
  have sp: "spendSafe (demoSession 1000000 (Num 250000) [])"
    by (simp add: spendSafe_def demoSession_def pendingTotal_def)
  from spend_safety [OF safe ok, of demoHost] safe ok demo_run sp show ?thesis by simp
qed

lemma sign_cumulative:
  "cumulativeSpendMicrousdc (sk_state (snd (signForChallenge h sk c rq clk)))
   = cumulativeSpendMicrousdc (sk_state sk)"
proof -
  obtain r sk' where run: "signForChallenge h sk c rq clk = (r, sk')"
    by (cases "signForChallenge h sk c rq clk")
  from signForChallenge_cases [OF run] show ?thesis
    by (auto simp: run)
qed

lemma release_cumulative:
  "cumulativeSpendMicrousdc (sk_state (releasePayment sk k)) = cumulativeSpendMicrousdc (sk_state sk)"
  by (cases "getProperty (pendingAttempts (sk_state sk)) k = Undefined")
     (simp_all add: releasePayment_Undefined releasePayment_state)

lemma release_no_entry:
  "objGet (pendingAttempts (sk_state (releasePayment sk k))) k = None"
proof (cases "getProperty (pendingAttempts (sk_state sk)) k = Undefined")
  case True
  then show ?thesis
    using getProperty_Undefined_keys [OF True]
    by (simp add: releasePayment_Undefined objGet_None_iff)
next
  case False
  then show ?thesis
    by (auto simp: releasePayment_state objGet_None_iff)
qed

section \<open>The claims on the interceptor\<close>

text \<open>
  \<^bold>\<open>Claim C6\<close> (a failed retry releases the payment). When the interceptor has signed
  a payment and retried, and the retry throws or returns a response that is not 2xx, then
  the interceptor throws that error, or returns that response; the calls that it made on
  the session key are \<^verbatim>\<open>signForChallenge\<close> and then one
  \<^verbatim>\<open>releasePayment(signed.idempotencyKey)\<close>, no commit; afterwards the cumulative
  spend of the session is what it was before the request and the pending map has no
  entry for that key.
\<close>

theorem retry_failure_releases:
  assumes first: "fetchImpl 0 input init = Inr r1" "rs_status r1 = 402" "\<not> hasPaymentHeader init"
    and challenge: "extractChallenge cdc r1 = Inr (Some c)"
    and sign: "signForChallenge h sk c
                 \<lparr> rq_method = resolveMethod h input init, rq_url = resolveUrl input,
                   rq_body = resolveBody init \<rparr> clock = (Inr sp, sk1)"
    and retry: "fetchImpl 1 input
                  (init\<lparr> ri_headers := (ri_headers init)
                     (lit ''payment-signature'' \<mapsto> encodePaymentHeader cdc sp,
                      lit ''x-ace-idempotency-key'' \<mapsto> p_idempotencyKey sp) \<rparr>) = outcome"
    and failed: "case outcome of Inl e \<Rightarrow> True | Inr r2 \<Rightarrow> \<not> responseOk r2"
  shows "x402Fetch h cdc fetchImpl clock sk input init
         = (outcome, releasePayment sk1 (p_idempotencyKey sp),
            [CallSignForChallenge c
               \<lparr> rq_method = resolveMethod h input init, rq_url = resolveUrl input,
                 rq_body = resolveBody init \<rparr>,
             CallReleasePayment (p_idempotencyKey sp)])
       \<and> cumulativeSpendMicrousdc (sk_state (releasePayment sk1 (p_idempotencyKey sp)))
         = cumulativeSpendMicrousdc (sk_state sk)
       \<and> objGet (pendingAttempts (sk_state (releasePayment sk1 (p_idempotencyKey sp))))
           (p_idempotencyKey sp) = None"
proof -
  have "x402Fetch h cdc fetchImpl clock sk input init
         = (outcome, releasePayment sk1 (p_idempotencyKey sp),
            [CallSignForChallenge c
               \<lparr> rq_method = resolveMethod h input init, rq_url = resolveUrl input,
                 rq_body = resolveBody init \<rparr>,
             CallReleasePayment (p_idempotencyKey sp)])"
    using first challenge sign retry failed
    unfolding x402Fetch_def Let_def
    by (cases outcome) simp_all
  moreover have "cumulativeSpendMicrousdc (sk_state sk1) = cumulativeSpendMicrousdc (sk_state sk)"
    using sign_cumulative [of h sk c "\<lparr> rq_method = resolveMethod h input init,
        rq_url = resolveUrl input, rq_body = resolveBody init \<rparr>" clock]
    by (simp add: sign)
  ultimately show ?thesis
    by (simp add: release_cumulative release_no_entry)
qed

lemma demo_sign_ok:
  assumes "toUpperCase demoHost (rq_method rq) = lit ''GET''" "rq_url rq = lit ''/compute''"
  shows "\<not> isl (fst (signForChallenge demoHost demoKey (demoChallenge 150000) rq (clockAll 100)))"
  using assms
  unfolding signForChallenge_def Let_def ensureActive_def getSnapshot_def
  by (simp add: clockAll_def demoKey_def demoState_def demoChallenge_def
        pendingSpend_empty demoWallet_def deriveRequestHash_def persist_def
        numSub_def toNumber_exact)

lemma lit_GET_nonempty: "lit ''GET'' \<noteq> []"
  by (simp add: lit_def)

lemma demo_extract_v1:
  "extractChallenge demoCodec (demoResponse402 (lit ''v1'')) = Inr (Some (demoChallenge 150000))"
  by (simp add: extractChallenge_def demoResponse402_def demoCodec_def demoRequired_def
        extractChallengeFromRequired_def demoAccept_def demoChallenge_def lit_def)

text \<open>Scenario S2: the transport answers 402, then 500.\<close>

theorem retry_failure_releases_witness:
  "demoFetch (demoResponse402 (lit ''v1'')) 0 demoInput demoInit = Inr (demoResponse402 (lit ''v1''))
   \<and> rs_status (demoResponse402 (lit ''v1'')) = 402
   \<and> \<not> hasPaymentHeader demoInit
   \<and> extractChallenge demoCodec (demoResponse402 (lit ''v1'')) = Inr (Some (demoChallenge 150000))
   \<and> \<not> responseOk demoResponse500
   \<and> fst (x402Fetch demoHost demoCodec (demoFetch (demoResponse402 (lit ''v1''))) (clockAll 100)
            demoKey demoInput demoInit) = Inr demoResponse500
   \<and> length (snd (snd (x402Fetch demoHost demoCodec (demoFetch (demoResponse402 (lit ''v1'')))
            (clockAll 100) demoKey demoInput demoInit))) = 2
   \<and> cumulativeSpendMicrousdc (sk_state (fst (snd (x402Fetch demoHost demoCodec
            (demoFetch (demoResponse402 (lit ''v1''))) (clockAll 100) demoKey demoInput demoInit))))
     = Num 0"
proof -
  let ?rq = "\<lparr> rq_method = resolveMethod demoHost demoInput demoInit,
               rq_url = resolveUrl demoInput, rq_body = resolveBody demoInit \<rparr>"
  let ?s = "signForChallenge demoHost demoKey (demoChallenge 150000) ?rq (clockAll 100)"
  have "\<not> isl (fst ?s)"
    by (rule demo_sign_ok) (simp_all add: resolveMethod_def demoInit_def demoInput_def lit_GET_nonempty)
  then obtain sp where "fst ?s = Inr sp" by (metis sum.collapse(2))
  then have sign: "?s = (Inr sp, snd ?s)" by (metis prod.collapse)
  have first: "demoFetch (demoResponse402 (lit ''v1'')) 0 demoInput demoInit
               = Inr (demoResponse402 (lit ''v1''))"
    "rs_status (demoResponse402 (lit ''v1'')) = 402" "\<not> hasPaymentHeader demoInit"
    by (simp_all add: demoFetch_def demoResponse402_def hasPaymentHeader_def demoInit_def)
  have retry: "demoFetch (demoResponse402 (lit ''v1'')) 1 demoInput
                  (demoInit\<lparr> ri_headers := (ri_headers demoInit)
                     (lit ''payment-signature'' \<mapsto> encodePaymentHeader demoCodec sp,
                      lit ''x-ace-idempotency-key'' \<mapsto> p_idempotencyKey sp) \<rparr>)
               = Inr demoResponse500"
    by (simp add: demoFetch_def)
  have failed: "\<not> responseOk demoResponse500"
    by (simp add: responseOk_def demoResponse500_def)
  from retry_failure_releases
         [where fetchImpl = "demoFetch (demoResponse402 (lit ''v1''))" and input = demoInput
            and init = demoInit and outcome = "Inr demoResponse500",
          OF first demo_extract_v1 sign retry] failed
  have "x402Fetch demoHost demoCodec (demoFetch (demoResponse402 (lit ''v1''))) (clockAll 100)
            demoKey demoInput demoInit
        = (Inr demoResponse500, releasePayment (snd ?s) (p_idempotencyKey sp),
            [CallSignForChallenge (demoChallenge 150000) ?rq,
             CallReleasePayment (p_idempotencyKey sp)])"
    and "cumulativeSpendMicrousdc (sk_state (releasePayment (snd ?s) (p_idempotencyKey sp)))
         = cumulativeSpendMicrousdc (sk_state demoKey)"
    by simp_all
  then show ?thesis
    using first demo_extract_v1 failed by (simp add: demoKey_def demoState_def)
qed

text \<open>
  \<^bold>\<open>Claim C9\<close> (where the challenge is read), as amended. When the
  \<^verbatim>\<open>PAYMENT-REQUIRED\<close> header of a 402 response yields no challenge, because it
  cannot be decoded or because it decodes and its \<open>accepts\<close> entries hold no challenge
  of this protocol version, the interceptor goes on to the body, as it does for a
  response without the header: the result of the extraction is the one for the same
  response without the header. When the body gives no challenge either, the 402 response
  is returned unchanged with no call on the session key; when reading the body throws,
  the interceptor throws with no call on the session key. A challenge that is found
  comes from the body and has this protocol version; \<^verbatim>\<open>signForChallenge\<close> is called
  with this challenge and the context of the request, and when that call throws, the
  interceptor throws its error.
\<close>

theorem header_without_match_falls_back:
  assumes hdr: "rs_headers r (lit ''payment-required'') = Some hv"
    and noMatch: "decodePaymentRequiredHeader cdc hv = None
                  \<or> (\<exists>required. decodePaymentRequiredHeader cdc hv = Some required
                        \<and> extractChallengeFromRequired required = None)"
    and first: "fetchImpl 0 input init = Inr r" "rs_status r = 402" "\<not> hasPaymentHeader init"
  shows "extractChallenge cdc r
         = extractChallenge cdc (r\<lparr> rs_headers := (rs_headers r)(lit ''payment-required'' := None) \<rparr>)
       \<and> (extractChallenge cdc r = Inr None \<longrightarrow>
            x402Fetch h cdc fetchImpl clock sk input init = (Inr r, sk, []))
       \<and> (\<forall>e. extractChallenge cdc r = Inl e \<longrightarrow>
            x402Fetch h cdc fetchImpl clock sk input init = (Inl e, sk, []))
       \<and> (\<forall>c. extractChallenge cdc r = Inr (Some c) \<longrightarrow>
            parseJsonBody cdc (rs_body r) = Some \<lparr> b_challenge = Some c \<rparr>
            \<and> c_version c = ACE_PAYMENT_VERSION
            \<and> take 1 (snd (snd (x402Fetch h cdc fetchImpl clock sk input init)))
              = [CallSignForChallenge c
                   \<lparr> rq_method = resolveMethod h input init, rq_url = resolveUrl input,
                     rq_body = resolveBody init \<rparr>]
            \<and> (\<forall>e sk1. signForChallenge h sk c
                   \<lparr> rq_method = resolveMethod h input init, rq_url = resolveUrl input,
                     rq_body = resolveBody init \<rparr> clock = (Inl e, sk1) \<longrightarrow>
                 x402Fetch h cdc fetchImpl clock sk input init
                 = (Inl e, sk1,
                    [CallSignForChallenge c
                       \<lparr> rq_method = resolveMethod h input init, rq_url = resolveUrl input,
                         rq_body = resolveBody init \<rparr>])))"
proof -
  have neq: "lit ''content-type'' \<noteq> lit ''payment-required''"
    by simp
  have fromHeader:
    "(if hv = [] then None
      else (case decodePaymentRequiredHeader cdc hv of
              None \<Rightarrow> None
            | Some required \<Rightarrow> extractChallengeFromRequired required)) = None"
    using noMatch by (auto split: option.splits)
  have a: "extractChallenge cdc r
         = extractChallenge cdc (r\<lparr> rs_headers := (rs_headers r)(lit ''payment-required'' := None) \<rparr>)"
    using hdr neq by (simp add: extractChallenge_def Let_def fromHeader)
  have b: "extractChallenge cdc r = Inr None \<Longrightarrow>
            x402Fetch h cdc fetchImpl clock sk input init = (Inr r, sk, [])"
    using first by (simp add: x402Fetch_def)
  have b': "\<And>e. extractChallenge cdc r = Inl e \<Longrightarrow>
            x402Fetch h cdc fetchImpl clock sk input init = (Inl e, sk, [])"
    using first by (simp add: x402Fetch_def)
  have c: "\<And>c. extractChallenge cdc r = Inr (Some c) \<Longrightarrow>
            parseJsonBody cdc (rs_body r) = Some \<lparr> b_challenge = Some c \<rparr>
            \<and> c_version c = ACE_PAYMENT_VERSION"
    using hdr
    by (auto simp: extractChallenge_def Let_def fromHeader split: option.splits if_splits)
  have d: "\<And>c. extractChallenge cdc r = Inr (Some c) \<Longrightarrow>
            take 1 (snd (snd (x402Fetch h cdc fetchImpl clock sk input init)))
              = [CallSignForChallenge c
                   \<lparr> rq_method = resolveMethod h input init, rq_url = resolveUrl input,
                     rq_body = resolveBody init \<rparr>]"
    using first
    by (auto simp: x402Fetch_def Let_def split: sum.splits option.splits prod.splits)
  have e: "\<And>c e sk1. extractChallenge cdc r = Inr (Some c) \<Longrightarrow>
            signForChallenge h sk c
                   \<lparr> rq_method = resolveMethod h input init, rq_url = resolveUrl input,
                     rq_body = resolveBody init \<rparr> clock = (Inl e, sk1) \<Longrightarrow>
            x402Fetch h cdc fetchImpl clock sk input init
            = (Inl e, sk1,
               [CallSignForChallenge c
                  \<lparr> rq_method = resolveMethod h input init, rq_url = resolveUrl input,
                    rq_body = resolveBody init \<rparr>])"
    using first by (simp add: x402Fetch_def Let_def)
  from a b b' c d e show ?thesis by blast
qed

lemma demo_v0_nomatch:
  "extractChallengeFromRequired (demoRequired (lit ''ace-x402-v0'')) = None"
  by (simp add: extractChallengeFromRequired_def demoRequired_def demoAccept_def
        ACE_PAYMENT_VERSION_def)

lemma includes_json: "includes_str (lit ''application/json'') (lit ''application/json'')"
  by (simp add: lit_def)

lemma demo_extract_v0:
  "extractChallenge demoCodec (demoResponse402 (lit ''v0'')) = Inr (Some (demoChallenge 150000))"
  by (simp add: extractChallenge_def demoResponse402_def demoCodec_def demo_v0_nomatch
        demoChallenge_def includes_json)

text \<open>
  The claim as stated says that a header that decodes and holds no matching challenge
  gives no challenge, and that the 402 is returned unchanged without signing. On the
  first response of the witness the challenge of the body is found and the interceptor
  does not return the 402 with an untouched session key.
\<close>

theorem header_without_match_counterexample:
  "rs_headers (demoResponse402 (lit ''v0'')) (lit ''payment-required'') = Some (lit ''v0'')
   \<and> decodePaymentRequiredHeader demoCodec (lit ''v0'') = Some (demoRequired (lit ''ace-x402-v0''))
   \<and> extractChallengeFromRequired (demoRequired (lit ''ace-x402-v0'')) = None
   \<and> extractChallenge demoCodec (demoResponse402 (lit ''v0'')) = Inr (Some (demoChallenge 150000))
   \<and> x402Fetch demoHost demoCodec (demoFetch (demoResponse402 (lit ''v0''))) (clockAll 100)
        demoKey demoInput demoInit
     \<noteq> (Inr (demoResponse402 (lit ''v0'')), demoKey, [])"
proof -
  have h: "rs_headers (demoResponse402 (lit ''v0'')) (lit ''payment-required'') = Some (lit ''v0'')"
    by (simp add: demoResponse402_def)
  have d: "decodePaymentRequiredHeader demoCodec (lit ''v0'') = Some (demoRequired (lit ''ace-x402-v0''))"
    by (simp add: demoCodec_def)
  have first: "demoFetch (demoResponse402 (lit ''v0'')) 0 demoInput demoInit
               = Inr (demoResponse402 (lit ''v0''))"
    "rs_status (demoResponse402 (lit ''v0'')) = 402" "\<not> hasPaymentHeader demoInit"
    by (simp_all add: demoFetch_def demoResponse402_def hasPaymentHeader_def demoInit_def)
  have "snd (snd (x402Fetch demoHost demoCodec (demoFetch (demoResponse402 (lit ''v0'')))
          (clockAll 100) demoKey demoInput demoInit)) \<noteq> []"
    using first demo_extract_v0
    by (auto simp: x402Fetch_def Let_def split: sum.splits option.splits prod.splits)
  then have "x402Fetch demoHost demoCodec (demoFetch (demoResponse402 (lit ''v0''))) (clockAll 100)
        demoKey demoInput demoInit
     \<noteq> (Inr (demoResponse402 (lit ''v0'')), demoKey, [])"
    by auto
  with h d demo_v0_nomatch demo_extract_v0 show ?thesis by simp
qed

lemma demo_extract_junk:
  "extractChallenge demoCodec (demoResponse402 (lit ''junk'')) = Inr (Some (demoChallenge 150000))"
  by (simp add: extractChallenge_def demoResponse402_def demoCodec_def
        demoChallenge_def includes_json)

text \<open>
  Two responses whose JSON body carries a challenge of this version: the header of the
  first one decodes to an envelope with a challenge of another version, the header of
  the second one cannot be decoded. Both challenges reach \<^verbatim>\<open>signForChallenge\<close>; at
  10000 ms, when the session has expired, that call throws and the interceptor throws its
  error. A third response has the undecodable header and no JSON body: it is returned
  unchanged.
\<close>

theorem header_without_match_witness:
  "rs_headers (demoResponse402 (lit ''v0'')) (lit ''payment-required'') = Some (lit ''v0'')
   \<and> decodePaymentRequiredHeader demoCodec (lit ''v0'') = Some (demoRequired (lit ''ace-x402-v0''))
   \<and> extractChallengeFromRequired (demoRequired (lit ''ace-x402-v0'')) = None
   \<and> demoFetch (demoResponse402 (lit ''v0'')) 0 demoInput demoInit
       = Inr (demoResponse402 (lit ''v0''))
   \<and> rs_status (demoResponse402 (lit ''v0'')) = 402
   \<and> \<not> hasPaymentHeader demoInit
   \<and> extractChallenge demoCodec (demoResponse402 (lit ''v0'')) = Inr (Some (demoChallenge 150000))
   \<and> parseJsonBody demoCodec (rs_body (demoResponse402 (lit ''v0'')))
       = Some \<lparr> b_challenge = Some (demoChallenge 150000) \<rparr>
   \<and> take 1 (snd (snd (x402Fetch demoHost demoCodec (demoFetch (demoResponse402 (lit ''v0'')))
          (clockAll 100) demoKey demoInput demoInit)))
     = [CallSignForChallenge (demoChallenge 150000)
          \<lparr> rq_method = lit ''GET'', rq_url = lit ''/compute'', rq_body = None \<rparr>]
   \<and> rs_headers (demoResponse402 (lit ''junk'')) (lit ''payment-required'') = Some (lit ''junk'')
   \<and> decodePaymentRequiredHeader demoCodec (lit ''junk'') = None
   \<and> demoFetch (demoResponse402 (lit ''junk'')) 0 demoInput demoInit
       = Inr (demoResponse402 (lit ''junk''))
   \<and> rs_status (demoResponse402 (lit ''junk'')) = 402
   \<and> extractChallenge demoCodec (demoResponse402 (lit ''junk'')) = Inr (Some (demoChallenge 150000))
   \<and> take 1 (snd (snd (x402Fetch demoHost demoCodec (demoFetch (demoResponse402 (lit ''junk'')))
          (clockAll 100) demoKey demoInput demoInit)))
     = [CallSignForChallenge (demoChallenge 150000)
          \<lparr> rq_method = lit ''GET'', rq_url = lit ''/compute'', rq_body = None \<rparr>]
   \<and> signForChallenge demoHost demoKey (demoChallenge 150000)
        \<lparr> rq_method = lit ''GET'', rq_url = lit ''/compute'', rq_body = None \<rparr> (clockAll 10000)
     = (Inl SessionExpired, demoKey)
   \<and> x402Fetch demoHost demoCodec (demoFetch (demoResponse402 (lit ''junk''))) (clockAll 10000)
        demoKey demoInput demoInit
     = (Inl SessionExpired, demoKey,
        [CallSignForChallenge (demoChallenge 150000)
           \<lparr> rq_method = lit ''GET'', rq_url = lit ''/compute'', rq_body = None \<rparr>])
   \<and> extractChallenge demoCodec
        ((demoResponse402 (lit ''junk''))\<lparr> rs_headers := [lit ''payment-required'' \<mapsto> lit ''junk''] \<rparr>)
     = Inr None
   \<and> x402Fetch demoHost demoCodec
        (demoFetch ((demoResponse402 (lit ''junk''))
           \<lparr> rs_headers := [lit ''payment-required'' \<mapsto> lit ''junk''] \<rparr>))
        (clockAll 100) demoKey demoInput demoInit
     = (Inr ((demoResponse402 (lit ''junk''))
           \<lparr> rs_headers := [lit ''payment-required'' \<mapsto> lit ''junk''] \<rparr>), demoKey, [])"
proof -
  have rq: "\<lparr> rq_method = resolveMethod demoHost demoInput demoInit, rq_url = resolveUrl demoInput,
              rq_body = resolveBody demoInit \<rparr>
            = \<lparr> rq_method = lit ''GET'', rq_url = lit ''/compute'', rq_body = None \<rparr>"
    by (simp add: resolveMethod_def resolveBody_def demoInit_def demoInput_def lit_GET_nonempty)
  have h: "rs_headers (demoResponse402 (lit ''v0'')) (lit ''payment-required'') = Some (lit ''v0'')"
    by (simp add: demoResponse402_def)
  have d: "decodePaymentRequiredHeader demoCodec (lit ''v0'') = Some (demoRequired (lit ''ace-x402-v0''))"
    by (simp add: demoCodec_def)
  have first: "demoFetch (demoResponse402 (lit ''v0'')) 0 demoInput demoInit
               = Inr (demoResponse402 (lit ''v0''))"
    "rs_status (demoResponse402 (lit ''v0'')) = 402" "\<not> hasPaymentHeader demoInit"
    by (simp_all add: demoFetch_def demoResponse402_def hasPaymentHeader_def demoInit_def)
  have noMatch: "decodePaymentRequiredHeader demoCodec (lit ''v0'') = None
      \<or> (\<exists>required. decodePaymentRequiredHeader demoCodec (lit ''v0'') = Some required
            \<and> extractChallengeFromRequired required = None)"
    using d demo_v0_nomatch by simp
  from header_without_match_falls_back
         [where fetchImpl = "demoFetch (demoResponse402 (lit ''v0''))" and input = demoInput
            and init = demoInit and h = demoHost and clock = "clockAll 100" and sk = demoKey,
          OF h noMatch first]
    demo_extract_v0
  have v0: "parseJsonBody demoCodec (rs_body (demoResponse402 (lit ''v0'')))
       = Some \<lparr> b_challenge = Some (demoChallenge 150000) \<rparr>
     \<and> take 1 (snd (snd (x402Fetch demoHost demoCodec (demoFetch (demoResponse402 (lit ''v0'')))
          (clockAll 100) demoKey demoInput demoInit)))
       = [CallSignForChallenge (demoChallenge 150000)
            \<lparr> rq_method = lit ''GET'', rq_url = lit ''/compute'', rq_body = None \<rparr>]"
    by (simp add: rq)
  have hj: "rs_headers (demoResponse402 (lit ''junk'')) (lit ''payment-required'') = Some (lit ''junk'')"
    by (simp add: demoResponse402_def)
  have dj: "decodePaymentRequiredHeader demoCodec (lit ''junk'') = None"
    by (simp add: demoCodec_def)
  have firstj: "demoFetch (demoResponse402 (lit ''junk'')) 0 demoInput demoInit
               = Inr (demoResponse402 (lit ''junk''))"
    "rs_status (demoResponse402 (lit ''junk'')) = 402" "\<not> hasPaymentHeader demoInit"
    by (simp_all add: demoFetch_def demoResponse402_def hasPaymentHeader_def demoInit_def)
  have noMatchj: "decodePaymentRequiredHeader demoCodec (lit ''junk'') = None
      \<or> (\<exists>required. decodePaymentRequiredHeader demoCodec (lit ''junk'') = Some required
            \<and> extractChallengeFromRequired required = None)"
    using dj by simp
  from header_without_match_falls_back
         [where fetchImpl = "demoFetch (demoResponse402 (lit ''junk''))" and input = demoInput
            and init = demoInit and h = demoHost and clock = "clockAll 100" and sk = demoKey,
          OF hj noMatchj firstj]
    demo_extract_junk
  have junk: "take 1 (snd (snd (x402Fetch demoHost demoCodec (demoFetch (demoResponse402 (lit ''junk'')))
          (clockAll 100) demoKey demoInput demoInit)))
       = [CallSignForChallenge (demoChallenge 150000)
            \<lparr> rq_method = lit ''GET'', rq_url = lit ''/compute'', rq_body = None \<rparr>]"
    by (simp add: rq)
  have expired: "signForChallenge demoHost demoKey (demoChallenge 150000)
        \<lparr> rq_method = lit ''GET'', rq_url = lit ''/compute'', rq_body = None \<rparr> (clockAll 10000)
     = (Inl SessionExpired, demoKey)"
    by (simp add: signForChallenge_def Let_def ensureActive_def clockAll_def demoKey_def
          demoState_def)
  from header_without_match_falls_back
         [where fetchImpl = "demoFetch (demoResponse402 (lit ''junk''))" and input = demoInput
            and init = demoInit and h = demoHost and clock = "clockAll 10000" and sk = demoKey,
          OF hj noMatchj firstj]
    demo_extract_junk expired
  have late: "x402Fetch demoHost demoCodec (demoFetch (demoResponse402 (lit ''junk'')))
        (clockAll 10000) demoKey demoInput demoInit
     = (Inl SessionExpired, demoKey,
        [CallSignForChallenge (demoChallenge 150000)
           \<lparr> rq_method = lit ''GET'', rq_url = lit ''/compute'', rq_body = None \<rparr>])"
    by (simp add: rq)
  let ?bare = "(demoResponse402 (lit ''junk''))
                 \<lparr> rs_headers := [lit ''payment-required'' \<mapsto> lit ''junk''] \<rparr>"
  have hb: "rs_headers ?bare (lit ''payment-required'') = Some (lit ''junk'')"
    by simp
  have firstb: "demoFetch ?bare 0 demoInput demoInit = Inr ?bare" "rs_status ?bare = 402"
    by (simp_all add: demoFetch_def demoResponse402_def)
  have noneb: "extractChallenge demoCodec ?bare = Inr None"
    by (simp add: extractChallenge_def dj)
  from header_without_match_falls_back
         [where fetchImpl = "demoFetch ?bare" and input = demoInput
            and init = demoInit and h = demoHost and clock = "clockAll 100" and sk = demoKey,
          OF hb noMatchj firstb firstj(3)]
    noneb
  have bare: "x402Fetch demoHost demoCodec (demoFetch ?bare) (clockAll 100) demoKey demoInput demoInit
              = (Inr ?bare, demoKey, [])"
    by simp
  from v0 junk late bare expired noneb h d demo_v0_nomatch first demo_extract_v0 hj dj firstj
    demo_extract_junk
  show ?thesis by simp
qed

section \<open>The claim on the origin\<close>

text \<open>
  \<^bold>\<open>Claim C4\<close> (replay and conflict on a ledger hit). For a request to
  \<^verbatim>\<open>/compute\<close> whose payment header decodes to a payment that passes
  \<^verbatim>\<open>validateSignedPayment\<close> and whose idempotency key has a record in the ledger:
  if the payer of the record equals the lower-cased payer of the payment and the amounts
  and the request hashes are equal, the origin answers 200 with \<open>replayed: true\<close> and
  the stored result; otherwise it answers 409 \<open>idempotency_key_conflict\<close>. In both
  cases the ledger is as before.
\<close>

theorem ledger_hit:
  assumes url: "newURLWithBase env (case im_url request of Some u \<Rightarrow> u | None \<Rightarrow> lit ''/'')
                  (lit ''http://'' @
                   (case im_headers request (lit ''host'') of
                      Some (Single hostName) \<Rightarrow> hostName
                    | _ \<Rightarrow> lit ''localhost:'' @ numberToString h (cfg_port config)))
                = Some parsedUrl"
    and path: "u_pathname parsedUrl = lit ''/compute''"
    and hash: "deriveRequestHash h
                 \<lparr> rq_method = toUpperCase h (case im_method request of Some m \<Rightarrow> m | None \<Rightarrow> lit ''GET''),
                   rq_url = u_href parsedUrl, rq_body = None \<rparr> = Inr requestHash"
    and header: "(case im_headers request (lit ''payment-signature'') of
                    Some v \<Rightarrow> Some v
                  | None \<Rightarrow>
                      (case im_headers request (lit ''x-payment'') of
                         Some v \<Rightarrow> Some v
                       | None \<Rightarrow> im_headers request (lit ''x-ace-payment'')))
                 = Some (Single headerValue)"
      "headerValue \<noteq> []"
    and decoded: "decodePaymentHeader cdc headerValue = Some payment"
    and valid: "validateSignedPayment h env payment (u_pathname parsedUrl @ u_search parsedUrl)
                  (toUpperCase h (case im_method request of Some m \<Rightarrow> m | None \<Rightarrow> lit ''GET''))
                  requestHash config = Inr address"
    and hit: "ledgerGet ledger (p_idempotencyKey payment) = Some existing"
  shows "handleRequest h cdc env config ledger request =
           (if r_payer existing = toLowerCase h (p_payer payment)
               \<and> r_amountMicrousdc existing = p_amountMicrousdc payment
               \<and> r_requestHash existing = p_requestHash payment
            then (sendJson 200
                    (OkPayload True (r_result existing) (r_idempotencyKey existing)
                       (r_amountMicrousdc existing))
                    (paidHeaders cdc headerValue (r_idempotencyKey existing)),
                  ledger)
            else (sendJson 409 IdempotencyKeyConflict [], ledger))"
  using assms
  unfolding handleRequest_def Let_def
  by simp

lemma demo_valid:
  "validateSignedPayment demoHost demoEnv demoOriginPayment (lit ''/compute'') (lit ''GET'')
     demoRequestHash demoConfig = Inr (lit ''0xabc'')"
  unfolding validateSignedPayment_def Let_def
  by (simp add: demoOriginPayment_def demoOriginChallenge_def demoChallenge_def demoConfig_def
        demoEnv_def verifyChallenge_def createChallengeMac_def)

text \<open>
  Scenarios S6 and S7: the ledger holds a record of the payment, once with the amount of
  the payment (replay) and once with another amount (conflict).
\<close>

theorem ledger_hit_witness:
  "validateSignedPayment demoHost demoEnv demoOriginPayment (lit ''/compute'') (lit ''GET'')
     demoRequestHash demoConfig = Inr (lit ''0xabc'')
   \<and> ledgerGet (demoLedger 250000) (p_idempotencyKey demoOriginPayment) = Some (demoRecord 250000)
   \<and> handleRequest demoHost demoOriginCodec demoEnv demoConfig (demoLedger 250000) demoIncoming
     = (sendJson 200
          (OkPayload True (r_result (demoRecord 250000)) (p_idempotencyKey demoOriginPayment) 250000)
          (paidHeaders demoOriginCodec (lit ''header'') (p_idempotencyKey demoOriginPayment)),
        demoLedger 250000)
   \<and> ledgerGet (demoLedger 100000) (p_idempotencyKey demoOriginPayment) = Some (demoRecord 100000)
   \<and> handleRequest demoHost demoOriginCodec demoEnv demoConfig (demoLedger 100000) demoIncoming
     = (sendJson 409 IdempotencyKeyConflict [], demoLedger 100000)"
proof -
  have url: "newURLWithBase demoEnv (case im_url demoIncoming of Some u \<Rightarrow> u | None \<Rightarrow> lit ''/'')
                  (lit ''http://'' @
                   (case im_headers demoIncoming (lit ''host'') of
                      Some (Single hostName) \<Rightarrow> hostName
                    | _ \<Rightarrow> lit ''localhost:'' @ numberToString demoHost (cfg_port demoConfig)))
                = Some \<lparr> u_pathname = lit ''/compute'', u_search = [], u_href = lit ''/compute'',
                         u_task = None \<rparr>"
    by (simp add: demoEnv_def demoIncoming_def)
  have m: "toUpperCase demoHost (case im_method demoIncoming of Some m \<Rightarrow> m | None \<Rightarrow> lit ''GET'')
           = lit ''GET''"
    by (simp add: demoIncoming_def)
  have header: "(case im_headers demoIncoming (lit ''payment-signature'') of
                    Some v \<Rightarrow> Some v
                  | None \<Rightarrow>
                      (case im_headers demoIncoming (lit ''x-payment'') of
                         Some v \<Rightarrow> Some v
                       | None \<Rightarrow> im_headers demoIncoming (lit ''x-ace-payment'')))
                 = Some (Single (lit ''header''))"
      "lit ''header'' \<noteq> []"
    by (simp_all add: demoIncoming_def)
  have decoded: "decodePaymentHeader demoOriginCodec (lit ''header'') = Some demoOriginPayment"
    by (simp add: demoOriginCodec_def)
  have hit: "ledgerGet (demoLedger amount) (p_idempotencyKey demoOriginPayment) = Some (demoRecord amount)"
    for amount
    by (simp add: ledgerGet_def demoLedger_def)
  have fields: "r_payer (demoRecord amount) = lit ''0xabc''"
      "r_amountMicrousdc (demoRecord amount) = amount"
      "r_requestHash (demoRecord amount) = demoRequestHash"
      "r_idempotencyKey (demoRecord amount) = p_idempotencyKey demoOriginPayment"
      "p_payer demoOriginPayment = lit ''0xABC''"
      "p_amountMicrousdc demoOriginPayment = 250000"
      "p_requestHash demoOriginPayment = demoRequestHash" for amount
    by (simp_all add: demoRecord_def demoOriginPayment_def)
  have r: "handleRequest demoHost demoOriginCodec demoEnv demoConfig (demoLedger amount) demoIncoming =
           (if r_payer (demoRecord amount) = toLowerCase demoHost (p_payer demoOriginPayment)
               \<and> r_amountMicrousdc (demoRecord amount) = p_amountMicrousdc demoOriginPayment
               \<and> r_requestHash (demoRecord amount) = p_requestHash demoOriginPayment
            then (sendJson 200
                    (OkPayload True (r_result (demoRecord amount)) (r_idempotencyKey (demoRecord amount))
                       (r_amountMicrousdc (demoRecord amount)))
                    (paidHeaders demoOriginCodec (lit ''header'') (r_idempotencyKey (demoRecord amount))),
                  demoLedger amount)
            else (sendJson 409 IdempotencyKeyConflict [], demoLedger amount))" for amount
    by (rule ledger_hit [where parsedUrl = "\<lparr> u_pathname = lit ''/compute'', u_search = [],
            u_href = lit ''/compute'', u_task = None \<rparr>" and requestHash = demoRequestHash
            and address = "lit ''0xabc''" and payment = demoOriginPayment])
       (simp_all add: url m header decoded hit demo_requestHash_eq demo_valid)
  show ?thesis
    using r [of 250000] r [of 100000] hit demo_valid by (simp add: fields)
qed

section \<open>The claim on canonical JSON\<close>

text \<open>
  \<^verbatim>\<open>Array.prototype.sort\<close> permutes its input and, for a comparison that is total and
  transitive on the elements, leaves it sorted; a list of distinct keys sorted by a
  comparison that is a linear order on them is determined by its set.
\<close>

lemma mset_insertBy [simp]: "mset (insertBy c x ys) = add_mset x (mset ys)"
  by (induction ys) auto

lemma mset_arraySort [simp]: "mset (arraySort c xs) = mset xs"
  by (induction xs) (auto simp: arraySort_def)

lemma distinct_keys_arraySort [simp]:
  "distinct (map fst (arraySort c xs)) = distinct (map fst xs)"
proof -
  have "mset (map fst (arraySort c xs)) = mset (map fst xs)" by simp
  then show ?thesis by (rule mset_eq_imp_distinct_iff)
qed

lemma sorted_insertBy:
  assumes total: "\<And>a b. a \<in> S \<Longrightarrow> b \<in> S \<Longrightarrow> c a b \<le> 0 \<or> c b a \<le> 0"
    and trans: "\<And>a b d. a \<in> S \<Longrightarrow> b \<in> S \<Longrightarrow> d \<in> S \<Longrightarrow> c a b \<le> 0 \<Longrightarrow> c b d \<le> 0 \<Longrightarrow> c a d \<le> 0"
  shows "x \<in> S \<Longrightarrow> set ys \<subseteq> S \<Longrightarrow> sorted_wrt (\<lambda>x y. c x y \<le> 0) ys \<Longrightarrow>
         sorted_wrt (\<lambda>x y. c x y \<le> 0) (insertBy c x ys)"
proof (induction ys)
  case Nil
  then show ?case by simp
next
  case (Cons y ys)
  have y: "y \<in> S" and ys: "set ys \<subseteq> S" using Cons.prems(2) by simp_all
  show ?case
  proof (cases "c x y \<le> 0")
    case True
    have "\<forall>z\<in>set ys. c x z \<le> 0"
    proof
      fix z assume z: "z \<in> set ys"
      then have "c y z \<le> 0" using Cons.prems(3) by simp
      with True show "c x z \<le> 0" using trans [of x y z] Cons.prems(1) y ys z by blast
    qed
    then show ?thesis using True Cons.prems(3) by simp
  next
    case False
    then have "c y x \<le> 0" using total [of x y] Cons.prems(1) y by blast
    moreover have "sorted_wrt (\<lambda>x y. c x y \<le> 0) (insertBy c x ys)"
      using Cons.IH [OF Cons.prems(1) ys] Cons.prems(3) by simp
    ultimately show ?thesis using False Cons.prems(3) by auto
  qed
qed

lemma sorted_arraySort:
  assumes total: "\<And>a b. a \<in> S \<Longrightarrow> b \<in> S \<Longrightarrow> c a b \<le> 0 \<or> c b a \<le> 0"
    and trans: "\<And>a b d. a \<in> S \<Longrightarrow> b \<in> S \<Longrightarrow> d \<in> S \<Longrightarrow> c a b \<le> 0 \<Longrightarrow> c b d \<le> 0 \<Longrightarrow> c a d \<le> 0"
  shows "set xs \<subseteq> S \<Longrightarrow> sorted_wrt (\<lambda>x y. c x y \<le> 0) (arraySort c xs)"
proof (induction xs)
  case Nil
  show ?case by (simp add: arraySort_def)
next
  case (Cons x xs)
  have "sorted_wrt (\<lambda>x y. c x y \<le> 0) (insertBy c x (arraySort c xs))"
    by (rule sorted_insertBy [of S c, OF total trans])
       (use Cons in \<open>simp_all\<close>)
  then show ?case by (simp add: arraySort_def)
qed

lemma sorted_entries:
  assumes "consistentOn cmp (map fst kvs)"
  shows "sorted_wrt (\<lambda>x y. cmp (fst x) (fst y) \<le> 0)
           (arraySort (\<lambda>x y. cmp (fst x) (fst y)) (ownEntries kvs))"
proof (rule sorted_arraySort [of "{kv. fst kv \<in> set (map fst kvs)}"])
  show "set (ownEntries kvs) \<subseteq> {kv. fst kv \<in> set (map fst kvs)}" by auto
next
  fix a b :: "jsstring \<times> 'a"
  assume "a \<in> {kv. fst kv \<in> set (map fst kvs)}" "b \<in> {kv. fst kv \<in> set (map fst kvs)}"
  then show "cmp (fst a) (fst b) \<le> 0 \<or> cmp (fst b) (fst a) \<le> 0"
    using assms unfolding consistentOn_def by blast
next
  fix a b d :: "jsstring \<times> 'a"
  assume "a \<in> {kv. fst kv \<in> set (map fst kvs)}" "b \<in> {kv. fst kv \<in> set (map fst kvs)}"
    "d \<in> {kv. fst kv \<in> set (map fst kvs)}" "cmp (fst a) (fst b) \<le> 0" "cmp (fst b) (fst d) \<le> 0"
  then show "cmp (fst a) (fst d) \<le> 0"
    using assms unfolding consistentOn_def by blast
qed

lemma sorted_wrt_unique:
  assumes antisym: "\<And>a b. a \<in> S \<Longrightarrow> b \<in> S \<Longrightarrow> le a b \<Longrightarrow> le b a \<Longrightarrow> a = b"
  shows "sorted_wrt le xs \<Longrightarrow> sorted_wrt le ys \<Longrightarrow> distinct xs \<Longrightarrow> distinct ys \<Longrightarrow>
         set xs = set ys \<Longrightarrow> set xs \<subseteq> S \<Longrightarrow> xs = ys"
proof (induction xs arbitrary: ys)
  case Nil
  then show ?case by simp
next
  case (Cons x xs)
  then obtain y ys' where ys: "ys = y # ys'" by (cases ys) auto
  have "x = y"
  proof (rule ccontr)
    assume neq: "x \<noteq> y"
    then have "x \<in> set ys'" "y \<in> set xs" using Cons.prems(5) ys by auto
    then have "le y x" "le x y" "x \<in> S" "y \<in> S" using Cons.prems(1,2,6) ys by auto
    then show False using antisym neq by blast
  qed
  moreover have "set xs = set ys'" using Cons.prems(3,4,5) ys \<open>x = y\<close> by auto
  ultimately show ?case using Cons ys by auto
qed

lemma sorted_keys_unique:
  assumes lin: "linearOn cmp (map fst a)"
    and d: "distinct (map fst a)" "distinct (map fst b)" and s: "fst ` set a = fst ` set b"
  shows "map fst (arraySort (\<lambda>x y. cmp (fst x) (fst y)) (ownEntries a))
         = map fst (arraySort (\<lambda>x y. cmp (fst x) (fst y)) (ownEntries b))"
proof -
  let ?c = "\<lambda>x y. cmp (fst x) (fst y)"
  have ca: "consistentOn cmp (map fst a)"
    using lin unfolding linearOn_def by (rule conjunct1)
  have eq: "set (map fst b) = set (map fst a)"
    using s by simp
  have cb: "consistentOn cmp (map fst b)"
    unfolding consistentOn_def eq using ca unfolding consistentOn_def .
  have anti: "\<forall>k\<in>set (map fst a). \<forall>l\<in>set (map fst a). cmp k l \<le> 0 \<longrightarrow> cmp l k \<le> 0 \<longrightarrow> k = l"
    using lin unfolding linearOn_def by (rule conjunct2)
  have antisym: "k = l"
    if "k \<in> set (map fst a)" "l \<in> set (map fst a)" "cmp k l \<le> 0" "cmp l k \<le> 0" for k l
    using anti that by blast
  have sa: "sorted_wrt (\<lambda>k l. cmp k l \<le> 0) (map fst (arraySort ?c (ownEntries a)))"
    using sorted_entries [OF ca] by (simp only: sorted_wrt_map)
  have sb: "sorted_wrt (\<lambda>k l. cmp k l \<le> 0) (map fst (arraySort ?c (ownEntries b)))"
    using sorted_entries [OF cb] by (simp only: sorted_wrt_map)
  have da: "distinct (map fst (arraySort ?c (ownEntries a)))"
    and db: "distinct (map fst (arraySort ?c (ownEntries b)))"
    using d by simp_all
  have sets: "set (map fst (arraySort ?c (ownEntries a))) = set (map fst (arraySort ?c (ownEntries b)))"
    using eq by simp
  have sub: "set (map fst (arraySort ?c (ownEntries a))) \<subseteq> set (map fst a)"
    by simp
  show ?thesis
    by (rule sorted_wrt_unique [of "set (map fst a)" "\<lambda>k l. cmp k l \<le> 0", OF antisym sa sb da db sets sub])
qed

lemma foldl_objSet_map:
  "distinct (map fst es) \<Longrightarrow>
   foldl (\<lambda>acc kv. objSet acc (fst kv) (f (snd kv))) [] es = map (\<lambda>kv. (fst kv, f (snd kv))) es"
proof -
  assume d: "distinct (map fst es)"
  have "foldl (\<lambda>acc kv. objSet acc (fst kv) (f (snd kv))) [] es
        = foldl (\<lambda>acc kv. objSet acc (fst kv) (snd kv)) [] (map (\<lambda>kv. (fst kv, f (snd kv))) es)"
    by (simp add: foldl_map)
  also have "\<dots> = map (\<lambda>kv. (fst kv, f (snd kv))) es"
    using foldl_objSet_distinct [of "[]" "map (\<lambda>kv. (fst kv, f (snd kv))) es"] d
    by (simp add: comp_def)
  finally show ?thesis .
qed

lemma foldl_objAssign_filter:
  "foldl (\<lambda>acc kv. objAssign acc (fst kv) (f (snd kv))) acc es
   = foldl (\<lambda>acc kv. objSet acc (fst kv) (f (snd kv))) acc
       (filter (\<lambda>kv. fst kv \<noteq> lit ''__proto__'') es)"
  by (induction es arbitrary: acc) (simp_all add: objAssign_def)

lemma foldl_objAssign_map:
  assumes "distinct (map fst es)"
  shows "foldl (\<lambda>acc kv. objAssign acc (fst kv) (f (snd kv))) [] es
         = map (\<lambda>kv. (fst kv, f (snd kv))) (filter (\<lambda>kv. fst kv \<noteq> lit ''__proto__'') es)"
proof -
  have "distinct (map fst (filter (\<lambda>kv. fst kv \<noteq> lit ''__proto__'') es))"
    using assms by (rule distinct_map_filter)
  from foldl_objSet_map [OF this, of f] show ?thesis
    by (simp only: foldl_objAssign_filter)
qed

text \<open>
  What \<^verbatim>\<open>sortDeep\<close> and \<^verbatim>\<open>JSON.stringify\<close> do on an array and on an object with
  distinct keys.
\<close>

lemma sortDeep_obj:
  "distinct (map fst kvs) \<Longrightarrow>
   sortDeep cmp (JObj kvs)
   = JObj (map (\<lambda>kv. (fst kv, sortDeep cmp (snd kv)))
       (filter (\<lambda>kv. fst kv \<noteq> lit ''__proto__'')
          (arraySort (\<lambda>a b. cmp (fst a) (fst b)) (ownEntries kvs))))"
  by (simp add: foldl_objAssign_map)

lemma insort_key_map_value:
  "insort_key (\<lambda>kv. d (fst kv)) (fst x, f (snd x)) (map (\<lambda>kv. (fst kv, f (snd kv))) xs)
   = map (\<lambda>kv. (fst kv, f (snd kv))) (insort_key (\<lambda>kv. d (fst kv)) x xs)"
  by (induction xs) auto

lemma sort_key_map_value:
  "sort_key (\<lambda>kv. d (fst kv)) (map (\<lambda>kv. (fst kv, f (snd kv))) xs)
   = map (\<lambda>kv. (fst kv, f (snd kv))) (sort_key (\<lambda>kv. d (fst kv)) xs)"
  by (induction xs) (simp_all add: insort_key_map_value)

lemma ownEntries_map_value:
  "ownEntries (map (\<lambda>kv. (fst kv, f (snd kv))) xs) = map (\<lambda>kv. (fst kv, f (snd kv))) (ownEntries xs)"
  by (simp add: ownEntries_def filter_map comp_def sort_key_map_value)

lemma canonicalJson_array:
  "canonicalJson h (JArr items)
   = lit ''['' @ joinWith (lit '','') (map (canonicalJson h) items) @ lit '']''"
  unfolding canonicalJson_def by (simp add: comp_def)

lemma canonicalJson_object:
  assumes "distinct (map fst kvs)"
  shows "canonicalJson h (JObj kvs)
   = lit ''{'' @ joinWith (lit '','')
       (map (\<lambda>kv. quoteJSON h (fst kv) @ lit '':'' @ canonicalJson h (snd kv))
          (emittedEntries (localeCompare h) kvs))
     @ lit ''}''"
  using assms
  unfolding canonicalJson_def
  by (simp add: sortDeep_obj ownEntries_map_value emittedEntries_def comp_def
           del: sortDeep.simps)

lemma list_all2_insort_key:
  assumes key: "\<And>x y. R x y \<Longrightarrow> d x = d y"
  shows "R x y \<Longrightarrow> list_all2 R xs ys \<Longrightarrow>
         list_all2 R (insort_key d x xs) (insort_key d y ys)"
proof (induction xs arbitrary: ys)
  case Nil
  then show ?case by simp
next
  case (Cons a xs)
  then obtain b ys' where ys: "ys = b # ys'" "R a b" "list_all2 R xs ys'"
    by (auto simp: list_all2_Cons1)
  show ?case
    using Cons.IH [OF Cons.prems(1) ys(3)] ys Cons.prems(1) key [OF Cons.prems(1)] key [OF ys(2)]
    by simp
qed

lemma list_all2_sort_key:
  assumes key: "\<And>x y. R x y \<Longrightarrow> d x = d y"
  shows "list_all2 R xs ys \<Longrightarrow> list_all2 R (sort_key d xs) (sort_key d ys)"
proof (induction xs ys rule: list_all2_induct)
  case Nil
  show ?case by simp
next
  case (Cons x xs y ys)
  from list_all2_insort_key [of R d, OF key Cons(1) Cons(3)]
  show ?case by simp
qed

lemma list_all2_filter_key:
  assumes key: "\<And>x y. R x y \<Longrightarrow> P x = P y"
  shows "list_all2 R xs ys \<Longrightarrow> list_all2 R (filter P xs) (filter P ys)"
  by (induction xs ys rule: list_all2_induct) (auto dest: key)

lemma list_all2_ownEntries:
  fixes R :: "jsstring \<times> 'v \<Rightarrow> jsstring \<times> 'v \<Rightarrow> bool"
  assumes key: "\<And>x y. R x y \<Longrightarrow> fst x = fst y"
  shows "list_all2 R xs ys \<Longrightarrow> list_all2 R (ownEntries xs) (ownEntries ys)"
proof -
  assume r: "list_all2 R xs ys"
  have p: "\<And>x y. R x y \<Longrightarrow> isArrayIndex (fst x) = isArrayIndex (fst y)"
    and n: "\<And>x y. R x y \<Longrightarrow> (\<not> isArrayIndex (fst x)) = (\<not> isArrayIndex (fst y))"
    and d: "\<And>x y. R x y \<Longrightarrow> decimalValue (fst x) = decimalValue (fst y)"
    using key by simp_all
  have a: "list_all2 R (filter (\<lambda>kv. isArrayIndex (fst kv)) xs)
             (filter (\<lambda>kv. isArrayIndex (fst kv)) ys)"
    by (rule list_all2_filter_key [of R "\<lambda>kv. isArrayIndex (fst kv)", OF p r])
  have b: "list_all2 R (filter (\<lambda>kv. \<not> isArrayIndex (fst kv)) xs)
             (filter (\<lambda>kv. \<not> isArrayIndex (fst kv)) ys)"
    by (rule list_all2_filter_key [of R "\<lambda>kv. \<not> isArrayIndex (fst kv)", OF n r])
  have c: "list_all2 R (sort_key (\<lambda>kv. decimalValue (fst kv)) (filter (\<lambda>kv. isArrayIndex (fst kv)) xs))
             (sort_key (\<lambda>kv. decimalValue (fst kv)) (filter (\<lambda>kv. isArrayIndex (fst kv)) ys))"
    by (rule list_all2_sort_key [of R "\<lambda>kv. decimalValue (fst kv)", OF d a])
  show ?thesis unfolding ownEntries_def by (rule list_all2_appendI [OF c b])
qed

lemma list_all2_map_eq:
  "list_all2 (\<lambda>x y. g x = g y) xs ys \<Longrightarrow> map g xs = map g ys"
  by (induction xs ys rule: list_all2_induct) auto

lemma length_insertBy [simp]: "length (insertBy c x ys) = Suc (length ys)"
  by (induction ys) auto

lemma length_arraySort [simp]: "length (arraySort c xs) = length xs"
  by (induction xs) (simp_all add: arraySort_def)

lemma length_ownEntries [simp]: "length (ownEntries xs) = length xs"
  by (rule mset_eq_length [OF mset_ownEntries])

lemma entry_of_sorted:
  assumes "distinct (map fst a)" "i < length a"
  shows "map_of a (fst (arraySort c (ownEntries a) ! i)) = Some (snd (arraySort c (ownEntries a) ! i))"
proof -
  have "arraySort c (ownEntries a) ! i \<in> set (arraySort c (ownEntries a))"
    by (rule nth_mem) (simp add: assms(2))
  then have "(fst (arraySort c (ownEntries a) ! i), snd (arraySort c (ownEntries a) ! i)) \<in> set a"
    by simp
  then show ?thesis using assms(1) by (rule map_of_is_SomeI [rotated])
qed

text \<open>
  Two values with the same content serialise to the same string when the comparison is a
  linear order on the keys of the first one: the sorted entries of two objects with the
  same key set carry the same keys at the same positions, and the enumeration order of
  the rebuilt object depends on these alone.
\<close>

lemma linearOn_subset:
  "linearOn cmp ks \<Longrightarrow> set ks' \<subseteq> set ks \<Longrightarrow> linearOn cmp ks'"
  unfolding linearOn_def consistentOn_def by (blast dest: subsetD)

lemma jsonKeys_item: "item \<in> set items \<Longrightarrow> set (jsonKeys item) \<subseteq> set (jsonKeys (JArr items))"
  by auto

lemma jsonKeys_entry: "(k, v) \<in> set kvs \<Longrightarrow> set (jsonKeys v) \<subseteq> set (jsonKeys (JObj kvs))"
  by force

lemma sameContent_canonicalJson:
  assumes "sameContent v w" and "linearOn (localeCompare h) (jsonKeys v)"
  shows "canonicalJson h v = canonicalJson h w"
  using assms
proof (induction rule: sameContent.induct)
  case (sameArr xs ys)
  have "list_all2 (\<lambda>x y. canonicalJson h x = canonicalJson h y) xs ys"
  proof (rule list.rel_mono_strong [OF sameArr.IH])
    fix x y assume x: "x \<in> set xs"
      and ih: "sameContent x y \<and> (linearOn (localeCompare h) (jsonKeys x) \<longrightarrow>
                 canonicalJson h x = canonicalJson h y)"
    have "linearOn (localeCompare h) (jsonKeys x)"
      by (rule linearOn_subset [OF sameArr.prems jsonKeys_item [OF x]])
    with ih show "canonicalJson h x = canonicalJson h y" by simp
  qed
  from list_all2_map_eq [OF this] show ?case by (simp add: canonicalJson_array)
next
  case (sameObj a b)
  let ?c = "\<lambda>x y. localeCompare h (fst x) (fst y)"
  let ?A = "arraySort ?c (ownEntries a)" and ?B = "arraySort ?c (ownEntries b)"
  let ?g = "\<lambda>kv. quoteJSON h (fst kv) @ lit '':'' @ canonicalJson h (snd kv)"
  let ?p = "\<lambda>kv :: jsstring \<times> 'a json. fst kv \<noteq> lit ''__proto__''"
  have lin: "linearOn (localeCompare h) (map fst a)"
    by (rule linearOn_subset [OF sameObj.prems]) simp
  have keys: "map fst ?A = map fst ?B"
    by (rule sorted_keys_unique [OF lin sameObj(1,2,3)])
  have len: "length a = length b"
    using arg_cong [OF keys, of length] by simp
  have "list_all2 (\<lambda>x y. fst x = fst y \<and> canonicalJson h (snd x) = canonicalJson h (snd y)) ?A ?B"
  proof (rule list_all2_all_nthI)
    show "length ?A = length ?B" using len by simp
  next
    fix i assume i: "i < length ?A"
    then have ia: "i < length a" and ib: "i < length b" using len by simp_all
    have "map fst ?A ! i = map fst ?B ! i" using keys by simp
    then have k: "fst (?A ! i) = fst (?B ! i)"
      using ia ib by simp
    have ma: "map_of a (fst (?A ! i)) = Some (snd (?A ! i))"
      by (rule entry_of_sorted [OF sameObj(1) ia])
    have mb: "map_of b (fst (?A ! i)) = Some (snd (?B ! i))"
      using entry_of_sorted [OF sameObj(2) ib, of ?c] k by simp
    have "(fst (?A ! i), snd (?A ! i)) \<in> set a" using ma by (rule map_of_SomeD)
    then have "linearOn (localeCompare h) (jsonKeys (snd (?A ! i)))"
      by (rule linearOn_subset [OF sameObj.prems jsonKeys_entry])
    then have "canonicalJson h (snd (?A ! i)) = canonicalJson h (snd (?B ! i))"
      using sameObj(4) [rule_format, OF ma mb] by simp
    then show "fst (?A ! i) = fst (?B ! i)
        \<and> canonicalJson h (snd (?A ! i)) = canonicalJson h (snd (?B ! i))"
      using k by simp
  qed
  then have "list_all2 (\<lambda>x y. fst x = fst y \<and> canonicalJson h (snd x) = canonicalJson h (snd y))
               (filter ?p ?A) (filter ?p ?B)"
    by (rule list_all2_filter_key [rotated]) simp
  then have "list_all2 (\<lambda>x y. fst x = fst y \<and> canonicalJson h (snd x) = canonicalJson h (snd y))
               (ownEntries (filter ?p ?A)) (ownEntries (filter ?p ?B))"
    by (rule list_all2_ownEntries [rotated]) simp
  then have "list_all2 (\<lambda>x y. ?g x = ?g y) (ownEntries (filter ?p ?A)) (ownEntries (filter ?p ?B))"
    by (rule list_all2_mono) simp
  from list_all2_map_eq [OF this] show ?case
    by (simp add: canonicalJson_object sameObj(1,2) emittedEntries_def)
qed simp_all

lemma emitted_index_part:
  "filter (\<lambda>kv. isArrayIndex (fst kv)) (ownEntries xs)
   = sort_key (\<lambda>kv. decimalValue (fst kv)) (filter (\<lambda>kv. isArrayIndex (fst kv)) xs)"
  by (simp add: ownEntries_def filter_sort)

lemma emitted_other_part:
  "filter (\<lambda>kv. \<not> isArrayIndex (fst kv)) (ownEntries xs)
   = filter (\<lambda>kv. \<not> isArrayIndex (fst kv)) xs"
  by (simp add: ownEntries_def filter_sort)

lemma emitted_order:
  shows "map fst (emittedEntries cmp kvs)
         = filter isArrayIndex (map fst (emittedEntries cmp kvs))
           @ filter (\<lambda>k. \<not> isArrayIndex k) (map fst (emittedEntries cmp kvs))"
    and "sorted (map decimalValue (filter isArrayIndex (map fst (emittedEntries cmp kvs))))"
    and "consistentOn cmp (map fst kvs) \<Longrightarrow>
         sorted_wrt (\<lambda>a b. cmp a b \<le> 0)
           (filter (\<lambda>k. \<not> isArrayIndex k) (map fst (emittedEntries cmp kvs)))"
    and "lit ''__proto__'' \<notin> set (map fst kvs) \<Longrightarrow> mset (emittedEntries cmp kvs) = mset kvs"
proof -
  let ?c = "\<lambda>x y. cmp (fst x) (fst y)"
  let ?p = "\<lambda>kv :: jsstring \<times> 'a. fst kv \<noteq> lit ''__proto__''"
  let ?A = "filter ?p (arraySort ?c (ownEntries kvs))"
  have e: "emittedEntries cmp kvs = ownEntries ?A" by (simp add: emittedEntries_def)
  have i: "filter isArrayIndex (map fst (emittedEntries cmp kvs))
           = map fst (sort_key (\<lambda>kv. decimalValue (fst kv)) (filter (\<lambda>kv. isArrayIndex (fst kv)) ?A))"
    unfolding e by (simp only: filter_map comp_def emitted_index_part)
  have o: "filter (\<lambda>k. \<not> isArrayIndex k) (map fst (emittedEntries cmp kvs))
           = map fst (filter (\<lambda>kv. \<not> isArrayIndex (fst kv)) ?A)"
    unfolding e by (simp only: filter_map comp_def emitted_other_part)
  show "map fst (emittedEntries cmp kvs)
         = filter isArrayIndex (map fst (emittedEntries cmp kvs))
           @ filter (\<lambda>k. \<not> isArrayIndex k) (map fst (emittedEntries cmp kvs))"
    unfolding i o by (simp add: e ownEntries_def)
  have "sorted (map (\<lambda>kv. decimalValue (fst kv))
          (sort_key (\<lambda>kv. decimalValue (fst kv)) (filter (\<lambda>kv. isArrayIndex (fst kv)) ?A)))"
    by (rule sorted_sort_key)
  then show "sorted (map decimalValue (filter isArrayIndex (map fst (emittedEntries cmp kvs))))"
    unfolding i by (simp add: comp_def)
  show "sorted_wrt (\<lambda>a b. cmp a b \<le> 0)
           (filter (\<lambda>k. \<not> isArrayIndex k) (map fst (emittedEntries cmp kvs)))"
    if "consistentOn cmp (map fst kvs)"
  proof -
    have "sorted_wrt (\<lambda>x y. ?c x y \<le> 0) (filter (\<lambda>kv. \<not> isArrayIndex (fst kv)) ?A)"
      by (intro sorted_wrt_filter sorted_entries [OF that])
    then show ?thesis unfolding o by (simp add: sorted_wrt_map)
  qed
  show "mset (emittedEntries cmp kvs) = mset kvs" if "lit ''__proto__'' \<notin> set (map fst kvs)"
  proof -
    have "?A = arraySort ?c (ownEntries kvs)"
      using that by (intro filter_True) force
    then show ?thesis unfolding e by (simp add: mset_ownEntries)
  qed
qed

text \<open>
  \<^bold>\<open>Claim C1\<close> (canonical JSON), as amended. An array is serialised as its items in
  their order, separated by commas, with no whitespace. The entries that
  \<^verbatim>\<open>canonicalJson\<close> emits for an object come in this order: the keys that are array
  indices first, in ascending numeric order, then the other keys, and these are sorted by
  \<^verbatim>\<open>localeCompare\<close> when it is total and transitive on the keys of the object (as
  the language requires). The emitted entries are a permutation of the entries of the
  object when no key is \<^verbatim>\<open>__proto__\<close>. An object (its keys are distinct) is
  serialised as the emitted entries, each one the quoted key, a colon and the canonical
  string of the value, separated by commas. Two values with the same content, whatever
  the insertion order of their keys, have the same canonical string when
  \<^verbatim>\<open>localeCompare\<close> is a linear order on the keys that occur in them: total,
  transitive, and 0 on no two different keys.
\<close>

theorem canonicalJson_canonical:
  "canonicalJson h (JArr items)
     = lit ''['' @ joinWith (lit '','') (map (canonicalJson h) items) @ lit '']''
   \<and> map fst (emittedEntries (localeCompare h) kvs)
     = filter isArrayIndex (map fst (emittedEntries (localeCompare h) kvs))
       @ filter (\<lambda>k. \<not> isArrayIndex k) (map fst (emittedEntries (localeCompare h) kvs))
   \<and> sorted (map decimalValue
       (filter isArrayIndex (map fst (emittedEntries (localeCompare h) kvs))))
   \<and> (consistentOn (localeCompare h) (map fst kvs) \<longrightarrow>
        sorted_wrt (\<lambda>a b. localeCompare h a b \<le> 0)
          (filter (\<lambda>k. \<not> isArrayIndex k) (map fst (emittedEntries (localeCompare h) kvs))))
   \<and> (lit ''__proto__'' \<notin> set (map fst kvs) \<longrightarrow>
        mset (emittedEntries (localeCompare h) kvs) = mset kvs)
   \<and> (distinct (map fst kvs) \<longrightarrow>
        canonicalJson h (JObj kvs)
        = lit ''{'' @ joinWith (lit '','')
            (map (\<lambda>kv. quoteJSON h (fst kv) @ lit '':'' @ canonicalJson h (snd kv))
               (emittedEntries (localeCompare h) kvs))
          @ lit ''}'')
   \<and> (sameContent v w \<and> linearOn (localeCompare h) (jsonKeys v) \<longrightarrow>
        canonicalJson h v = canonicalJson h w)"
  using sameContent_canonicalJson [where v = v and w = w and h = h]
    canonicalJson_array [where h = h and items = items]
    canonicalJson_object [where kvs = kvs and h = h]
    emitted_order [where cmp = "localeCompare h" and kvs = kvs]
  by simp

text \<open>The comparison by code units is a linear order.\<close>

lemma codeUnitCompare_refl: "codeUnitCompare a a = 0"
  by (induction a) auto

lemma codeUnitCompare_antisym:
  "codeUnitCompare a b \<le> 0 \<Longrightarrow> codeUnitCompare b a \<le> 0 \<Longrightarrow> a = b"
  by (induction a b rule: codeUnitCompare.induct) (auto split: if_splits)

lemma codeUnitCompare_total: "codeUnitCompare a b \<le> 0 \<or> codeUnitCompare b a \<le> 0"
  by (induction a b rule: codeUnitCompare.induct) auto

lemma codeUnitCompare_trans:
  "codeUnitCompare a b \<le> 0 \<Longrightarrow> codeUnitCompare b c \<le> 0 \<Longrightarrow> codeUnitCompare a c \<le> 0"
proof (induction a b arbitrary: c rule: codeUnitCompare.induct)
  case 1
  then show ?case by simp
next
  case (2 y ys)
  then show ?case by (cases c) auto
next
  case (3 x xs)
  then show ?case by simp
next
  case (4 x xs y ys)
  show ?case
  proof (cases c)
    case Nil
    then show ?thesis using 4 by simp
  next
    case (Cons z zs)
    show ?thesis using 4 Cons by (auto split: if_splits)
  qed
qed

lemma linearOn_codeUnitCompare: "linearOn codeUnitCompare ks"
  unfolding linearOn_def consistentOn_def
  using codeUnitCompare_antisym codeUnitCompare_total codeUnitCompare_trans by blast

lemma demo_index_keys:
  "isArrayIndex (lit ''10'')" "isArrayIndex (lit ''9'')"
  "decimalValue (lit ''10'') = 10" "decimalValue (lit ''9'') = 9"
  by (simp_all add: isArrayIndex_def lit_def isDigit_def decimalValue_def)

lemma demo_letter_keys: "\<not> isArrayIndex (lit ''a'')" "\<not> isArrayIndex (lit ''b'')"
  by (simp_all add: isArrayIndex_def lit_def isDigit_def)

text \<open>
  The keys \<open>"10"\<close> and \<open>"9"\<close> are emitted as \<open>"9"\<close>, \<open>"10"\<close> whatever the
  comparison function is: the object that \<^verbatim>\<open>sortDeep\<close> rebuilds enumerates its
  array-index keys in numeric order.
\<close>

lemma index_keys_any_compare:
  "emittedKeys (sortDeep cmp (JObj demoIndexObj)) = [lit ''9'', lit ''10'']"
  by (cases "cmp (lit ''9'') (lit ''10'') \<le> 0")
     (simp_all add: emittedKeys_def demoIndexObj_def ownEntries_def arraySort_def demo_index_keys
        objAssign_def)

lemma demo_sameContent: "sameContent demoObjAB demoObjBA"
  unfolding demoObjAB_def demoObjBA_def
proof (rule sameContent.sameObj)
  show "\<forall>k va vb. map_of [(lit ''b'', JNum 2), (lit ''a'', JArr [JNum 1, JNull :: int json])] k = Some va \<longrightarrow>
          map_of [(lit ''a'', JArr [JNum 1, JNull]), (lit ''b'', JNum 2)] k = Some vb \<longrightarrow>
          sameContent va vb"
    by (auto split: if_splits intro!: sameContent.intros)
qed auto

text \<open>
  An own property \<^verbatim>\<open>__proto__\<close> of the input is assigned, not defined, on the
  rebuilt object, and is missing from the output.
\<close>

lemma canonicalJson_proto_key_dropped:
  "canonicalJson demoHost demoProtoObj = lit ''{\"a\":2}''"
proof -
  have cmp: "localeCompare demoHost = codeUnitCompare"
    by (simp add: demoHost_def)
  have k: "\<not> isArrayIndex (lit ''__proto__'')"
    by (simp add: isArrayIndex_def lit_def isDigit_def)
  have num: "numberToString demoHost 2 = lit ''2''"
    by (simp add: demoHost_def showInt_def showNat.simps lit_def)
  have q: "quoteJSON demoHost s = lit ''\"'' @ s @ lit ''\"''" for s
    by (simp add: demoHost_def)
  show ?thesis
    unfolding canonicalJson_def demoProtoObj_def
    by (simp add: cmp ownEntries_def arraySort_def demo_letter_keys k num q objAssign_def)
       (simp add: lit_def)
qed

text \<open>
  The condition on the keys is needed: under a comparison that is 0 on the different
  keys \<open>x\<close> and \<open>y\<close> (and consistent on them), the insertion order shows.
\<close>

lemma tie_keeps_insertion_order:
  "consistentOn tieCompare [lit ''x'', lit ''y'']
   \<and> canonicalJson (demoHost\<lparr> localeCompare := tieCompare \<rparr>)
        (JObj [(lit ''x'', JNull), (lit ''y'', JNull)]) = lit ''{\"x\":null,\"y\":null}''
   \<and> canonicalJson (demoHost\<lparr> localeCompare := tieCompare \<rparr>)
        (JObj [(lit ''y'', JNull), (lit ''x'', JNull)]) = lit ''{\"y\":null,\"x\":null}''"
proof -
  have k: "\<not> isArrayIndex (lit ''x'')" "\<not> isArrayIndex (lit ''y'')"
    by (simp_all add: isArrayIndex_def lit_def isDigit_def)
  have q: "quoteJSON demoHost s = lit ''\"'' @ s @ lit ''\"''" for s
    by (simp add: demoHost_def)
  have t: "tieCompare (lit ''x'') (lit ''y'') = 0" "tieCompare (lit ''y'') (lit ''x'') = 0"
    "tieCompare (lit ''x'') (lit ''x'') = 0" "tieCompare (lit ''y'') (lit ''y'') = 0"
    by (simp_all add: tieCompare_def)
  have c: "consistentOn tieCompare [lit ''x'', lit ''y'']"
    by (simp add: consistentOn_def t)
  have a: "canonicalJson (demoHost\<lparr> localeCompare := tieCompare \<rparr>)
        (JObj [(lit ''x'', JNull), (lit ''y'', JNull)]) = lit ''{\"x\":null,\"y\":null}''"
    unfolding canonicalJson_def
    by (simp add: ownEntries_def arraySort_def k t q objAssign_def) (simp add: lit_def)
  have b: "canonicalJson (demoHost\<lparr> localeCompare := tieCompare \<rparr>)
        (JObj [(lit ''y'', JNull), (lit ''x'', JNull)]) = lit ''{\"y\":null,\"x\":null}''"
    unfolding canonicalJson_def
    by (simp add: ownEntries_def arraySort_def k t q objAssign_def) (simp add: lit_def)
  from a b c show ?thesis by simp
qed

text \<open>
  The objects \<open>{b: 2, a: [1, null]}\<close> and \<open>{a: [1, null], b: 2}\<close> on a host whose
  comparison is a linear order on their keys: both give \<open>{"a":[1,null],"b":2}\<close>. The
  object with the keys \<open>"10"\<close> and \<open>"9"\<close> has distinct keys, none of them
  \<^verbatim>\<open>__proto__\<close>.
\<close>

theorem canonicalJson_canonical_witness:
  "consistentOn (localeCompare demoHost) (map fst demoIndexObj)
   \<and> lit ''__proto__'' \<notin> set (map fst demoIndexObj)
   \<and> distinct (map fst demoIndexObj)
   \<and> sameContent demoObjAB demoObjBA
   \<and> linearOn (localeCompare demoHost) (jsonKeys demoObjAB)
   \<and> canonicalJson demoHost demoObjAB = canonicalJson demoHost demoObjBA
   \<and> canonicalJson demoHost demoObjAB = lit ''{\"a\":[1,null],\"b\":2}''
   \<and> map fst (emittedEntries (localeCompare demoHost) demoIndexObj) = [lit ''9'', lit ''10'']
   \<and> mset (emittedEntries (localeCompare demoHost) demoIndexObj) = mset demoIndexObj"
proof -
  have cmp: "localeCompare demoHost = codeUnitCompare"
    by (simp add: demoHost_def)
  have lin: "linearOn (localeCompare demoHost) (jsonKeys demoObjAB)"
    by (simp only: cmp linearOn_codeUnitCompare)
  have con: "consistentOn (localeCompare demoHost) (map fst demoIndexObj)"
    using linearOn_codeUnitCompare [of "map fst demoIndexObj"] by (simp only: cmp linearOn_def)
  have d: "distinct (map fst demoIndexObj)"
    by (simp add: demoIndexObj_def)
  have p: "lit ''__proto__'' \<notin> set (map fst demoIndexObj)"
    by (simp add: demoIndexObj_def)
  have ab: "codeUnitCompare (lit ''a'') (lit ''b'') \<le> 0" "\<not> codeUnitCompare (lit ''b'') (lit ''a'') \<le> 0"
    "codeUnitCompare (lit ''9'') (lit ''10'') \<le> 0 = False"
    by (simp_all add: lit_def)
  have num: "numberToString demoHost 1 = lit ''1''" "numberToString demoHost 2 = lit ''2''"
    by (simp_all add: demoHost_def showInt_def showNat.simps lit_def)
  have q: "quoteJSON demoHost s = lit ''\"'' @ s @ lit ''\"''" for s
    by (simp add: demoHost_def)
  have v: "canonicalJson demoHost demoObjAB = lit ''{\"a\":[1,null],\"b\":2}''"
    unfolding canonicalJson_def demoObjAB_def
    by (simp add: cmp ownEntries_def arraySort_def demo_letter_keys ab num q objAssign_def)
       (simp add: lit_def)
  have e: "map fst (emittedEntries (localeCompare demoHost) demoIndexObj) = [lit ''9'', lit ''10'']"
    by (simp add: emittedEntries_def cmp demoIndexObj_def ownEntries_def arraySort_def
          demo_index_keys ab)
  from canonicalJson_canonical [of demoHost "[]" demoIndexObj demoObjAB demoObjBA]
    con p d demo_sameContent lin v e
  show ?thesis by simp
qed

text \<open>
  The claim as stated says that the keys of every object are emitted sorted in code-unit
  order. Even on a host whose \<^verbatim>\<open>localeCompare\<close> is the code-unit comparison, the
  object with the keys \<open>"10"\<close> and \<open>"9"\<close> is serialised with \<open>"9"\<close> before \<open>"10"\<close>,
  although \<open>"10"\<close> is the smaller string in code-unit order.
\<close>

theorem canonicalJson_code_unit_order_counterexample:
  "codeUnitCompare (lit ''10'') (lit ''9'') < 0
   \<and> emittedKeys (sortDeep codeUnitCompare (JObj demoIndexObj)) = [lit ''9'', lit ''10'']
   \<and> canonicalJson demoHost (JObj demoIndexObj) = lit ''{\"9\":null,\"10\":null}''"
proof -
  have c: "codeUnitCompare (lit ''10'') (lit ''9'') < 0"
    by (simp add: lit_def)
  have cmp: "localeCompare demoHost = codeUnitCompare"
    by (simp add: demoHost_def)
  have q: "quoteJSON demoHost s = lit ''\"'' @ s @ lit ''\"''" for s
    by (simp add: demoHost_def)
  have ab: "codeUnitCompare (lit ''9'') (lit ''10'') \<le> 0 = False"
    by (simp add: lit_def)
  have v: "canonicalJson demoHost (JObj demoIndexObj) = lit ''{\"9\":null,\"10\":null}''"
    unfolding canonicalJson_def demoIndexObj_def
    by (simp add: cmp ownEntries_def arraySort_def demo_index_keys ab q objAssign_def)
       (simp add: lit_def)
  from c index_keys_any_compare [of codeUnitCompare] v show ?thesis by simp
qed

end
